theory Spec2Isabelle
  imports Main
begin

section \<open>Time, configuration and the platform\<close>

text \<open>
  The three detectors (\<^verbatim>\<open>anti_spam.py\<close>, \<^verbatim>\<open>anti_raid.py\<close>, \<^verbatim>\<open>anti_nuke.py\<close>) read the
  clock with \<^verbatim>\<open>datetime.now()\<close> and compare differences of readings with
  \<^verbatim>\<open>timedelta\<close> values. Both have microsecond resolution and compare exactly, so a
  \<^verbatim>\<open>datetime\<close> is the integer number of microseconds since the epoch and a
  \<^verbatim>\<open>timedelta\<close> an integer number of microseconds. Every function that reads the clock
  takes the reading as an argument.
\<close>

type_synonym datetime = int
type_synonym timedelta = int
type_synonym user_id = int

definition timedelta_seconds :: "int \<Rightarrow> timedelta" where
  "timedelta_seconds n = n * 1000000"

definition timedelta_minutes :: "int \<Rightarrow> timedelta" where
  "timedelta_minutes n = timedelta_seconds (n * 60)"

definition timedelta_hours :: "int \<Rightarrow> timedelta" where
  "timedelta_hours n = timedelta_seconds (n * 3600)"

definition timedelta_days :: "int \<Rightarrow> timedelta" where
  "timedelta_days n = timedelta_seconds (n * 86400)"

text \<open>\<^verbatim>\<open>config.py\<close>, class \<^verbatim>\<open>Config\<close>.\<close>

definition SPAM_MESSAGE_LIMIT :: nat where "SPAM_MESSAGE_LIMIT = 30"
definition SPAM_TIME_WINDOW :: int where "SPAM_TIME_WINDOW = 60"
definition RAID_JOIN_LIMIT :: nat where "RAID_JOIN_LIMIT = 10"
definition RAID_TIME_WINDOW :: int where "RAID_TIME_WINDOW = 60"
definition NUKE_ACTION_LIMIT :: nat where "NUKE_ACTION_LIMIT = 5"
definition NUKE_TIME_WINDOW :: int where "NUKE_TIME_WINDOW = 60"

text \<open>
  Reading \<^verbatim>\<open>d[k]\<close> from a \<^verbatim>\<open>defaultdict(deque)\<close>: a missing key reads as the empty deque.
\<close>

definition window_of :: "('k \<rightharpoonup> 'a list) \<Rightarrow> 'k \<Rightarrow> 'a list" where
  "window_of m k = (case m k of None \<Rightarrow> [] | Some q \<Rightarrow> q)"

text \<open>
  The platform (the discord.py client and the guild behind it) is outside the repository.
  The handlers depend on it through the answers below: whether a channel named
  \<^verbatim>\<open>Config.LOG_CHANNEL_NAME\<close> exists, whether a call is refused with
  \<^verbatim>\<open>discord.Forbidden\<close>, which member an id resolves to, and the most recent audit-log
  entry of a kind (\<^verbatim>\<open>guild.audit_logs(action=..., limit=1)\<close>). Calls whose refusal the
  source swallows without changing its course (the direct message, the log-channel send, the
  verification-level edit) have no flag.
\<close>

record role =
  role_id :: int
  permissions :: "string list"

datatype audit_action =
  Audit_channel_delete | Audit_channel_create | Audit_role_delete | Audit_role_create
  | Audit_ban | Audit_kick | Audit_guild_update | Audit_webhook_create

record audit_entry =
  target_id :: int
  entry_user :: user_id

record platform =
  log_channel :: bool
  can_send :: bool
  can_kick :: bool
  can_timeout :: bool
  can_remove_roles :: bool
  get_member :: "user_id \<rightharpoonup> role list"
  audit_logs :: "audit_action \<Rightarrow> audit_entry option"

datatype verification_level = Level_none | Level_low | Level_medium | Level_high | Level_highest

text \<open>The calls a handler makes on the platform, in the order it makes them.\<close>

datatype call =
    Send_DM user_id
  | Send_Channel user_id
  | Delete_Message
  | Log_Spam user_id string nat
  | Log_Nuke "user_id option" string
  | Log_Raid string
  | Log_Join user_id bool
  | Send_Alert
  | Kick user_id
  | Timeout user_id timedelta
  | Remove_Roles user_id "role list"
  | Edit_Verification_Level verification_level
  | Send_Reply string

text \<open>
  How a coroutine leaves the segment that was run: it returned, it raised, or it is
  suspended in \<^verbatim>\<open>await asyncio.sleep(d)\<close> and resumes at the continuation named.
\<close>

datatype exn = Forbidden | NameError string | TypeError

datatype 'k status = Done | Raised exn | Sleeping timedelta 'k

text \<open>
  \<^verbatim>\<open>asyncio.sleep(secs)\<close> looks the name \<^verbatim>\<open>asyncio\<close> up in the globals of the module that
  contains the call; the lookup raises \<^verbatim>\<open>NameError\<close> when the module never bound it.
  The names each module binds at its top (its import statements and its class):
\<close>

definition anti_spam_globals :: "string list" where
  "anti_spam_globals =
     [''discord'', ''commands'', ''defaultdict'', ''deque'', ''datetime'', ''timedelta'',
      ''asyncio'', ''Config'', ''AntiSpamCog'']"

definition anti_raid_globals :: "string list" where
  "anti_raid_globals =
     [''discord'', ''commands'', ''defaultdict'', ''deque'', ''datetime'', ''timedelta'',
      ''Config'', ''AntiRaidCog'']"

definition anti_nuke_globals :: "string list" where
  "anti_nuke_globals =
     [''discord'', ''commands'', ''defaultdict'', ''deque'', ''datetime'', ''timedelta'',
      ''asyncio'', ''Config'', ''AntiNukeCog'']"

definition asyncio_sleep :: "string list \<Rightarrow> int \<Rightarrow> 'k \<Rightarrow> 'k status" where
  "asyncio_sleep module_globals secs k =
     (if ''asyncio'' \<in> set module_globals then Sleeping (timedelta_seconds secs) k
      else Raised (NameError ''asyncio''))"

text \<open>
  \<^verbatim>\<open>except Exception as e: print(...)\<close> around a body: an exception that reaches it ends the
  handler normally.
\<close>

definition except_Exception :: "'k status \<Rightarrow> 'k status" where
  "except_Exception st = (case st of Raised e \<Rightarrow> Done | _ \<Rightarrow> st)"

section \<open>The event loop\<close>

text \<open>
  The handlers are coroutines on one asyncio event loop. A coroutine that reaches
  \<^verbatim>\<open>await asyncio.sleep(d)\<close> at time \<open>now\<close> is parked with the wake-up time \<open>now + d\<close>;
  the loop resumes it once that time has come. The loop state is the cog's state and the
  parked coroutines, each with its wake-up time and the place it resumes at.
\<close>

record ('s, 'k) event_loop =
  cog :: 's
  sleeping :: "(datetime \<times> 'k) list"

definition suspend :: "datetime \<Rightarrow> 'k status \<Rightarrow> (datetime \<times> 'k) list" where
  "suspend now st = (case st of Sleeping d k \<Rightarrow> [(now + d, k)] | _ \<Rightarrow> [])"

text \<open>Running a handler \<open>h\<close> at time \<open>now\<close> up to its return, raise or first sleep.\<close>

definition run_handler ::
  "('s \<Rightarrow> 's \<times> call list \<times> 'k status) \<Rightarrow> datetime \<Rightarrow> ('s, 'k) event_loop
     \<Rightarrow> ('s, 'k) event_loop \<times> call list" where
  "run_handler h now L =
     (let (s, calls, st) = h (cog L)
      in (\<lparr>cog = s, sleeping = sleeping L @ suspend now st\<rparr>, calls))"

text \<open>
  Letting the time pass to \<open>now\<close> with no event arriving: every parked coroutine whose
  wake-up time has come is resumed, in the order in which they were parked.
\<close>

fun wake_due ::
  "('k \<Rightarrow> 's \<Rightarrow> 's \<times> call list \<times> 'k status) \<Rightarrow> datetime \<Rightarrow> (datetime \<times> 'k) list \<Rightarrow> 's
     \<Rightarrow> 's \<times> call list \<times> (datetime \<times> 'k) list" where
  "wake_due resume now [] s = (s, [], [])"
| "wake_due resume now ((t, k) # rest) s =
     (if t \<le> now then
        (let (s, c, st) = resume k s;
             (s, cs, left) = wake_due resume now rest s
         in (s, c @ cs, suspend now st @ left))
      else
        (let (s, cs, left) = wake_due resume now rest s
         in (s, cs, (t, k) # left)))"

definition advance ::
  "('k \<Rightarrow> 's \<Rightarrow> 's \<times> call list \<times> 'k status) \<Rightarrow> datetime \<Rightarrow> ('s, 'k) event_loop
     \<Rightarrow> ('s, 'k) event_loop \<times> call list" where
  "advance resume now L =
     (let (s, calls, left) = wake_due resume now (sleeping L) (cog L)
      in (\<lparr>cog = s, sleeping = left\<rparr>, calls))"

section \<open>Anti-nuke (\<^verbatim>\<open>anti_nuke.py\<close>)\<close>

text \<open>
  \<^verbatim>\<open>AntiNukeCog.__init__\<close>: \<^verbatim>\<open>action_tracking\<close> is a \<^verbatim>\<open>defaultdict(deque)\<close>; each deque
  element is the dictionary \<^verbatim>\<open>{'time': now, 'action': action_type}\<close>.
\<close>

record tracked_action =
  time :: datetime
  action :: string

record nuke_state =
  action_tracking :: "user_id \<rightharpoonup> tracked_action list"
  protected_mode :: bool
  trusted_users :: "user_id set"

definition nuke_init :: nuke_state where
  "nuke_init = \<lparr>action_tracking = Map.empty, protected_mode = False, trusted_users = {}\<rparr>"

definition destructive_actions :: "string list" where
  "destructive_actions =
     [''channel_delete'', ''channel_create'', ''role_delete'', ''role_create'',
      ''member_ban'', ''member_kick'', ''guild_update'', ''webhook_create'']"

definition log_nuke_action :: "platform \<Rightarrow> user_id option \<Rightarrow> string \<Rightarrow> call list" where
  "log_nuke_action p user act = (if log_channel p then [Log_Nuke user act] else [])"

text \<open>
  The loop of \<^verbatim>\<open>track_action\<close> (lines 64-65):
  \<^verbatim>\<open>while user_actions and now - user_actions[0]['time'] > timedelta(seconds=Config.NUKE_TIME_WINDOW):
      user_actions.popleft()\<close>
\<close>

fun expire_actions :: "datetime \<Rightarrow> tracked_action list \<Rightarrow> tracked_action list" where
  "expire_actions now [] = []"
| "expire_actions now (a # user_actions) =
     (if now - time a > timedelta_seconds NUKE_TIME_WINDOW
      then expire_actions now user_actions
      else a # user_actions)"

text \<open>\<^verbatim>\<open>track_action\<close> (lines 55-71); the result is the returned flag and the new state.\<close>

definition track_action ::
  "user_id \<Rightarrow> string \<Rightarrow> datetime \<Rightarrow> nuke_state \<Rightarrow> bool \<times> nuke_state" where
  "track_action uid action_type now s =
     (if uid \<in> trusted_users s then (False, s)
      else
        let user_actions = window_of (action_tracking s) uid;
            user_actions = expire_actions now user_actions;
            user_actions = user_actions @ [\<lparr>time = now, action = action_type\<rparr>]
        in (length user_actions > NUKE_ACTION_LIMIT,
            s\<lparr>action_tracking := (action_tracking s)(uid \<mapsto> user_actions)\<rparr>))"

text \<open>A run of calls for one user, each with its own action type and clock reading.\<close>

fun track_actions :: "user_id \<Rightarrow> (string \<times> datetime) list \<Rightarrow> nuke_state \<Rightarrow> bool list \<times> nuke_state" where
  "track_actions uid [] s = ([], s)"
| "track_actions uid ((a, now) # rest) s =
     (let (b, s') = track_action uid a now s;
          (bs, s'') = track_actions uid rest s'
      in (b # bs, s''))"

text \<open>
  \<^verbatim>\<open>activate_protection_mode\<close> (lines 109-151). The coroutine sets the flag, logs and alerts,
  sleeps for 3600 seconds (line 149) and then, in \<open>activate_protection_mode_resume\<close>
  (lines 150-151), clears the flag and logs.
\<close>

datatype nuke_resume = Resume_activate_protection_mode

definition activate_protection_mode ::
  "platform \<Rightarrow> nuke_state \<Rightarrow> nuke_state \<times> call list \<times> nuke_resume status" where
  "activate_protection_mode p s =
     (if protected_mode s then (s, [], Done)
      else
        let s = s\<lparr>protected_mode := True\<rparr>;
            calls = log_nuke_action p None ''PROTECTION MODE ACTIVATED''
                    @ (if log_channel p then [Send_Alert] else [])
        in (s, calls, asyncio_sleep anti_nuke_globals 3600 Resume_activate_protection_mode))"

definition activate_protection_mode_resume ::
  "platform \<Rightarrow> nuke_state \<Rightarrow> nuke_state \<times> call list \<times> nuke_resume status" where
  "activate_protection_mode_resume p s =
     (s\<lparr>protected_mode := False\<rparr>,
      log_nuke_action p None ''PROTECTION MODE DEACTIVATED'', Done)"

definition nuke_resume_at :: "platform \<Rightarrow> nuke_resume \<Rightarrow> nuke_state \<Rightarrow> nuke_state \<times> call list \<times> nuke_resume status" where
  "nuke_resume_at p k s = (case k of Resume_activate_protection_mode \<Rightarrow> activate_protection_mode_resume p s)"

text \<open>
  \<^verbatim>\<open>handle_nuke_attempt\<close> (lines 73-107). \<^verbatim>\<open>member.remove_roles\<close> and \<^verbatim>\<open>member.timeout\<close>
  raise \<^verbatim>\<open>discord.Forbidden\<close> when the platform refuses them; the handler at line 103 then
  logs and returns, so the call of \<^verbatim>\<open>activate_protection_mode\<close> at line 101 is skipped.
  Any other exception is caught at line 106 and printed.
\<close>

definition dangerous_perms :: "string list" where
  "dangerous_perms =
     [''administrator'', ''manage_guild'', ''manage_channels'',
      ''manage_roles'', ''ban_members'', ''kick_members'']"

definition is_dangerous :: "role \<Rightarrow> bool" where
  "is_dangerous r = list_ex (\<lambda>perm. perm \<in> set (permissions r)) dangerous_perms"

definition handle_nuke_attempt ::
  "platform \<Rightarrow> user_id \<Rightarrow> string \<Rightarrow> nuke_state \<Rightarrow> nuke_state \<times> call list \<times> nuke_resume status" where
  "handle_nuke_attempt p uid action_type s =
     (let no_permission = log_nuke_action p (Some uid) ''NUKE ATTEMPT DETECTED (No Permission)'';
          (refused, c1) =
            (case get_member p uid of
               None \<Rightarrow> (False, [])
             | Some member_roles \<Rightarrow>
                 let roles_to_remove = filter is_dangerous member_roles;
                     c = (if roles_to_remove \<noteq> [] then [Remove_Roles uid roles_to_remove] else [])
                 in if roles_to_remove \<noteq> [] \<and> \<not> can_remove_roles p then (True, c)
                    else if \<not> can_timeout p then (True, c @ [Timeout uid (timedelta_hours 24)])
                    else (False, c @ [Timeout uid (timedelta_hours 24)]
                                   @ log_nuke_action p (Some uid) ''NUKE ATTEMPT BLOCKED''))
      in if refused then (s, c1 @ no_permission, Done)
         else
           let (s, c2, st) = activate_protection_mode p s
           in (s, c1 @ c2, except_Exception st))"

text \<open>
  The listeners (lines 153-248). Each asks the audit log for the most recent entry of its
  kind; \<^verbatim>\<open>guild_info\<close> holds the attributes of the guild that \<^verbatim>\<open>on_guild_update\<close> compares.
\<close>

definition on_guild_channel_delete ::
  "platform \<Rightarrow> int \<Rightarrow> datetime \<Rightarrow> nuke_state \<Rightarrow> nuke_state \<times> call list \<times> nuke_resume status" where
  "on_guild_channel_delete p channel_id now s =
     (case audit_logs p Audit_channel_delete of
        None \<Rightarrow> (s, [], Done)
      | Some entry \<Rightarrow>
          if target_id entry = channel_id then
            (let user = entry_user entry;
                 (exceeded, s) = track_action user ''channel_delete'' now s
             in if exceeded then handle_nuke_attempt p user ''Mass Channel Deletion'' s
                else (s, log_nuke_action p (Some user) ''CHANNEL DELETED'', Done))
          else (s, [], Done))"

definition on_guild_channel_create ::
  "platform \<Rightarrow> int \<Rightarrow> datetime \<Rightarrow> nuke_state \<Rightarrow> nuke_state \<times> call list \<times> nuke_resume status" where
  "on_guild_channel_create p channel_id now s =
     (case audit_logs p Audit_channel_create of
        None \<Rightarrow> (s, [], Done)
      | Some entry \<Rightarrow>
          if target_id entry = channel_id then
            (let user = entry_user entry;
                 (exceeded, s) = track_action user ''channel_create'' now s
             in if exceeded then handle_nuke_attempt p user ''Mass Channel Creation'' s
                else (s, [], Done))
          else (s, [], Done))"

definition on_guild_role_delete ::
  "platform \<Rightarrow> int \<Rightarrow> datetime \<Rightarrow> nuke_state \<Rightarrow> nuke_state \<times> call list \<times> nuke_resume status" where
  "on_guild_role_delete p rid now s =
     (case audit_logs p Audit_role_delete of
        None \<Rightarrow> (s, [], Done)
      | Some entry \<Rightarrow>
          if target_id entry = rid then
            (let user = entry_user entry;
                 (exceeded, s) = track_action user ''role_delete'' now s
             in if exceeded then handle_nuke_attempt p user ''Mass Role Deletion'' s
                else (s, log_nuke_action p (Some user) ''ROLE DELETED'', Done))
          else (s, [], Done))"

definition on_guild_role_create ::
  "platform \<Rightarrow> int \<Rightarrow> datetime \<Rightarrow> nuke_state \<Rightarrow> nuke_state \<times> call list \<times> nuke_resume status" where
  "on_guild_role_create p rid now s =
     (case audit_logs p Audit_role_create of
        None \<Rightarrow> (s, [], Done)
      | Some entry \<Rightarrow>
          if target_id entry = rid then
            (let user = entry_user entry;
                 (exceeded, s) = track_action user ''role_create'' now s
             in if exceeded then handle_nuke_attempt p user ''Mass Role Creation'' s
                else (s, [], Done))
          else (s, [], Done))"

definition on_member_ban ::
  "platform \<Rightarrow> user_id \<Rightarrow> datetime \<Rightarrow> nuke_state \<Rightarrow> nuke_state \<times> call list \<times> nuke_resume status" where
  "on_member_ban p banned now s =
     (case audit_logs p Audit_ban of
        None \<Rightarrow> (s, [], Done)
      | Some entry \<Rightarrow>
          if target_id entry = banned then
            (let banner = entry_user entry;
                 (exceeded, s) = track_action banner ''member_ban'' now s
             in if exceeded then handle_nuke_attempt p banner ''Mass Member Banning'' s
                else (s, [], Done))
          else (s, [], Done))"

record guild_info =
  guild_name :: string
  icon :: "string option"
  verification :: verification_level

definition on_guild_update ::
  "platform \<Rightarrow> guild_info \<Rightarrow> guild_info \<Rightarrow> datetime \<Rightarrow> nuke_state
     \<Rightarrow> nuke_state \<times> call list \<times> nuke_resume status" where
  "on_guild_update p before after now s =
     (let significant_changes =
            (if guild_name before \<noteq> guild_name after then [''Name''] else [])
            @ (if icon before \<noteq> icon after then [''Icon changed''] else [])
            @ (if verification before \<noteq> verification after then [''Verification''] else [])
      in if significant_changes \<noteq> [] then
           (case audit_logs p Audit_guild_update of
              None \<Rightarrow> (s, [], Done)
            | Some entry \<Rightarrow>
                (let user = entry_user entry;
                     (exceeded, s) = track_action user ''guild_update'' now s
                 in if exceeded then handle_nuke_attempt p user ''Rapid Guild Modifications'' s
                    else (s, log_nuke_action p (Some user) ''GUILD UPDATED'', Done)))
         else (s, [], Done))"

text \<open>
  The library delivers a gateway event to the method of the cog that carries the event's
  name and is marked \<^verbatim>\<open>@commands.Cog.listener()\<close>. \<^verbatim>\<open>AntiNukeCog\<close> has the six listeners
  above and no other. A kick reaches the bot as \<^verbatim>\<open>on_member_remove\<close> (with an audit-log
  entry of kind kick) and the creation of a webhook as \<^verbatim>\<open>on_webhooks_update\<close>; the class
  defines neither method, so these events run no code of the cog.
\<close>

datatype gateway_event =
    Guild_channel_delete int
  | Guild_channel_create int
  | Guild_role_delete int
  | Guild_role_create int
  | Member_ban user_id
  | Guild_update guild_info guild_info
  | Member_remove user_id
  | Webhooks_update int

definition anti_nuke_dispatch ::
  "platform \<Rightarrow> gateway_event \<Rightarrow> datetime \<Rightarrow> nuke_state \<Rightarrow> nuke_state \<times> call list \<times> nuke_resume status" where
  "anti_nuke_dispatch p ev now s =
     (case ev of
        Guild_channel_delete c \<Rightarrow> on_guild_channel_delete p c now s
      | Guild_channel_create c \<Rightarrow> on_guild_channel_create p c now s
      | Guild_role_delete r \<Rightarrow> on_guild_role_delete p r now s
      | Guild_role_create r \<Rightarrow> on_guild_role_create p r now s
      | Member_ban u \<Rightarrow> on_member_ban p u now s
      | Guild_update before after \<Rightarrow> on_guild_update p before after now s
      | Member_remove u \<Rightarrow> (s, [], Done)
      | Webhooks_update c \<Rightarrow> (s, [], Done))"

text \<open>The action names that the six listeners pass to \<^verbatim>\<open>track_action\<close>.\<close>

definition listened_actions :: "string list" where
  "listened_actions =
     [''channel_delete'', ''channel_create'', ''role_delete'', ''role_create'',
      ''member_ban'', ''guild_update'']"

section \<open>Anti-spam (\<^verbatim>\<open>anti_spam.py\<close>)\<close>

record spam_state =
  user_messages :: "user_id \<rightharpoonup> datetime list"
  warned_users :: "user_id set"

definition spam_init :: spam_state where
  "spam_init = \<lparr>user_messages = Map.empty, warned_users = {}\<rparr>"

text \<open>
  The loop of \<^verbatim>\<open>is_spam\<close> (lines 52-53):
  \<^verbatim>\<open>while user_msgs and now - user_msgs[0] > timedelta(minutes=1): user_msgs.popleft()\<close>
\<close>

fun expire_messages :: "datetime \<Rightarrow> datetime list \<Rightarrow> datetime list" where
  "expire_messages now [] = []"
| "expire_messages now (t # user_msgs) =
     (if now - t > timedelta_minutes 1
      then expire_messages now user_msgs
      else t # user_msgs)"

text \<open>\<^verbatim>\<open>is_spam\<close> (lines 46-59).\<close>

definition is_spam :: "user_id \<Rightarrow> datetime \<Rightarrow> spam_state \<Rightarrow> bool \<times> spam_state" where
  "is_spam uid now s =
     (let user_msgs = window_of (user_messages s) uid;
          user_msgs = expire_messages now user_msgs;
          user_msgs = user_msgs @ [now]
      in (length user_msgs > SPAM_MESSAGE_LIMIT,
          s\<lparr>user_messages := (user_messages s)(uid \<mapsto> user_msgs)\<rparr>))"

text \<open>A run of evaluations for one user, one per clock reading.\<close>

fun is_spam_run :: "user_id \<Rightarrow> datetime list \<Rightarrow> spam_state \<Rightarrow> bool list \<times> spam_state" where
  "is_spam_run uid [] s = ([], s)"
| "is_spam_run uid (now # rest) s =
     (let (b, s') = is_spam uid now s;
          (bs, s'') = is_spam_run uid rest s'
      in (b # bs, s''))"

text \<open>
  \<^verbatim>\<open>log_spam_action\<close> (lines 22-44). Its last argument is written
  \<^verbatim>\<open>len(self.user_messages[user_id])\<close> at every call; reading the \<^verbatim>\<open>defaultdict\<close> stores an
  empty deque under a key that is missing, which \<open>touch\<close> records.
\<close>

definition touch :: "user_id \<Rightarrow> spam_state \<Rightarrow> spam_state" where
  "touch uid s = s\<lparr>user_messages := (user_messages s)(uid \<mapsto> window_of (user_messages s) uid)\<rparr>"

definition log_spam_action :: "platform \<Rightarrow> user_id \<Rightarrow> string \<Rightarrow> nat \<Rightarrow> call list" where
  "log_spam_action p uid act message_count =
     (if log_channel p then [Log_Spam uid act message_count] else [])"

text \<open>
  The handler of \<^verbatim>\<open>discord.Forbidden\<close> in \<^verbatim>\<open>on_message\<close> (lines 130-139): a timeout of ten
  minutes, and a log entry only when that is refused too. It changes neither the window
  nor the warned set.
\<close>

definition except_Forbidden :: "platform \<Rightarrow> user_id \<Rightarrow> spam_state \<Rightarrow> spam_state \<times> call list" where
  "except_Forbidden p uid s =
     (let s = touch uid s;
          n = length (window_of (user_messages s) uid)
      in if can_timeout p
         then (s, [Timeout uid (timedelta_minutes 10)] @ log_spam_action p uid ''TIMED OUT (10 min)'' n)
         else (s, [Timeout uid (timedelta_minutes 10)] @ log_spam_action p uid ''DETECTED (No Permission)'' n))"

text \<open>
  The kick with its clean-up, written twice in the source (lines 111-116 and 123-128):
  \<^verbatim>\<open>await message.author.kick(...)\<close>, the log entry, \<^verbatim>\<open>del self.user_messages[user_id]\<close>
  and \<^verbatim>\<open>self.warned_users.discard(user_id)\<close>. A refused kick raises
  \<^verbatim>\<open>discord.Forbidden\<close>, which leaves the \<^verbatim>\<open>try\<close> block before the clean-up.
\<close>

definition kick_and_clean_up :: "platform \<Rightarrow> user_id \<Rightarrow> spam_state \<Rightarrow> spam_state \<times> call list" where
  "kick_and_clean_up p uid s =
     (if can_kick p then
        (let s = touch uid s;
             n = length (window_of (user_messages s) uid)
         in (s\<lparr>user_messages := (user_messages s)(uid := None),
               warned_users := warned_users s - {uid}\<rparr>,
             [Kick uid] @ log_spam_action p uid ''KICKED'' n))
      else
        (let (s, calls) = except_Forbidden p uid s in (s, [Kick uid] @ calls)))"

record message =
  author_id :: user_id
  author_bot :: bool
  in_guild :: bool
  author_manage_messages :: bool

text \<open>
  \<^verbatim>\<open>on_message\<close> (lines 61-142) sleeps twice, so it runs in three segments:
  \<open>on_message\<close> up to \<^verbatim>\<open>asyncio.sleep(10)\<close> (line 97), \<open>on_message_after_10\<close> up to
  \<^verbatim>\<open>asyncio.sleep(30)\<close> (line 106), and \<open>on_message_after_30\<close>, the re-check of line 109
  with the clock reading of that moment. Between two sleeps the segment is taken as one
  step.
\<close>

datatype spam_resume = Resume_after_10 user_id | Resume_after_30 user_id

definition on_message ::
  "platform \<Rightarrow> message \<Rightarrow> datetime \<Rightarrow> spam_state \<Rightarrow> spam_state \<times> call list \<times> spam_resume status" where
  "on_message p m now s =
     (if author_bot m \<or> \<not> in_guild m then (s, [], Done)
      else if author_manage_messages m then (s, [], Done)
      else
        let uid = author_id m;
            (spam, s) = is_spam uid now s
        in if spam then
             (if uid \<notin> warned_users s then
                (let s = s\<lparr>warned_users := insert uid (warned_users s)\<rparr>
                 in if can_send p
                    then (s, [Send_DM uid, Send_Channel uid],
                          except_Exception (asyncio_sleep anti_spam_globals 10 (Resume_after_10 uid)))
                    else (let (s, calls) = except_Forbidden p uid s
                          in (s, [Send_DM uid, Send_Channel uid] @ calls, Done)))
              else
                (let (s, calls) = kick_and_clean_up p uid s in (s, calls, Done)))
           else (s, [], Done))"

definition on_message_after_10 ::
  "platform \<Rightarrow> user_id \<Rightarrow> spam_state \<Rightarrow> spam_state \<times> call list \<times> spam_resume status" where
  "on_message_after_10 p uid s =
     (let s = touch uid s;
          n = length (window_of (user_messages s) uid)
      in (s, [Delete_Message] @ log_spam_action p uid ''WARNING'' n,
          except_Exception (asyncio_sleep anti_spam_globals 30 (Resume_after_30 uid))))"

definition on_message_after_30 ::
  "platform \<Rightarrow> user_id \<Rightarrow> datetime \<Rightarrow> spam_state \<Rightarrow> spam_state \<times> call list \<times> spam_resume status" where
  "on_message_after_30 p uid now s =
     (let (spam, s) = is_spam uid now s
      in if spam then
           (let (s, calls) = kick_and_clean_up p uid s in (s, calls, Done))
         else (s\<lparr>warned_users := warned_users s - {uid}\<rparr>, [], Done))"

definition spam_resume_at ::
  "platform \<Rightarrow> datetime \<Rightarrow> spam_resume \<Rightarrow> spam_state \<Rightarrow> spam_state \<times> call list \<times> spam_resume status" where
  "spam_resume_at p now k s =
     (case k of
        Resume_after_10 uid \<Rightarrow> on_message_after_10 p uid s
      | Resume_after_30 uid \<Rightarrow> on_message_after_30 p uid now s)"

text \<open>\<^verbatim>\<open>on_member_remove\<close> (lines 144-150).\<close>

definition spam_on_member_remove :: "user_id \<Rightarrow> spam_state \<Rightarrow> spam_state" where
  "spam_on_member_remove uid s =
     s\<lparr>user_messages := (user_messages s)(uid := None), warned_users := warned_users s - {uid}\<rparr>"

section \<open>Anti-raid (\<^verbatim>\<open>anti_raid.py\<close>)\<close>

record raid_state =
  join_tracking :: "datetime list"
  raid_protection_active :: bool
  suspicious_users :: "user_id set"

definition raid_init :: raid_state where
  "raid_init = \<lparr>join_tracking = [], raid_protection_active = False, suspicious_users = {}\<rparr>"

definition log_raid_action :: "platform \<Rightarrow> string \<Rightarrow> call list" where
  "log_raid_action p act = (if log_channel p then [Log_Raid act] else [])"

text \<open>
  \<^verbatim>\<open>is_suspicious_account\<close> (lines 47-70). The reason is a formatted string in the source;
  here it is a value that keeps the rule and, for the first rule, the number
  \<^verbatim>\<open>account_age.days\<close> that the string shows. The last rule
  compares an integer with the floating-point product \<^verbatim>\<open>len(member.name) * 0.7\<close>; it is
  written over the integers as \<open>10 * digits > 7 * len\<close>, which gives the same verdict for
  every name of fewer than 90 characters (the platform allows 32).

  A Python \<^verbatim>\<open>datetime\<close> is naive (no time zone) or aware. Line 50 subtracts
  \<^verbatim>\<open>member.created_at\<close> from \<^verbatim>\<open>datetime.utcnow()\<close>, which is naive; Python raises
  \<^verbatim>\<open>TypeError\<close> when a naive and an aware \<^verbatim>\<open>datetime\<close> are subtracted. The library
  computes \<^verbatim>\<open>created_at\<close> from the id of the account; discord.py 2.x, which the
  repository needs (\<^verbatim>\<open>member.timeout\<close>, \<^verbatim>\<open>await bot.add_cog\<close>, \<^verbatim>\<open>async with bot\<close>),
  returns it aware, in UTC.
\<close>

datatype py_datetime = Naive datetime | Aware datetime

definition naive_minus :: "datetime \<Rightarrow> py_datetime \<Rightarrow> exn + timedelta" where
  "naive_minus t d = (case d of Naive c \<Rightarrow> Inr (t - c) | Aware c \<Rightarrow> Inl TypeError)"

record member =
  member_id :: user_id
  created_at :: py_datetime
  avatar :: "string option"
  member_name :: string

datatype suspicion =
    New_account int
  | No_profile_picture
  | Suspicious_username_pattern
  | Username_mostly_numbers

text \<open>
  A name is a list of characters with code points below 256. On these \<^verbatim>\<open>str.lower\<close>
  adds 32 to the code points 65-90 and 192-222 other than 215, and \<^verbatim>\<open>str.isdigit\<close>
  holds for the code points 48-57 and for 178, 179 and 185 (the superscripts two, three
  and one).
\<close>

definition char_lower :: "char \<Rightarrow> char" where
  "char_lower c =
     (let n = (of_char c :: nat)
      in if (65 \<le> n \<and> n \<le> 90) \<or> (192 \<le> n \<and> n \<le> 222 \<and> n \<noteq> 215)
         then char_of (n + 32) else c)"

definition isdigit :: "char \<Rightarrow> bool" where
  "isdigit c =
     (let n = (of_char c :: nat)
      in (48 \<le> n \<and> n \<le> 57) \<or> n = 178 \<or> n = 179 \<or> n = 185)"

fun starts_with :: "string \<Rightarrow> string \<Rightarrow> bool" where
  "starts_with xs [] = True"
| "starts_with [] (p # ps) = False"
| "starts_with (x # xs) (p # ps) = (x = p \<and> starts_with xs ps)"

fun contains :: "string \<Rightarrow> string \<Rightarrow> bool" where
  "contains [] pattern = (pattern = [])"
| "contains (x # xs) pattern = (starts_with (x # xs) pattern \<or> contains xs pattern)"

definition suspicious_patterns :: "string list" where
  "suspicious_patterns = [''user'', ''member'', ''discord'', ''raid'', ''spam'']"

definition is_suspicious_account :: "member \<Rightarrow> datetime \<Rightarrow> exn + bool \<times> suspicion option" where
  "is_suspicious_account m utcnow =
     (case naive_minus utcnow (created_at m) of
        Inl e \<Rightarrow> Inl e
      | Inr account_age \<Rightarrow>
          (let username = map char_lower (member_name m)
           in if account_age < timedelta_days 7
                then Inr (True, Some (New_account (account_age div timedelta_days 1)))
              else if avatar m = None
                then Inr (True, Some No_profile_picture)
              else if list_ex (\<lambda>pattern. contains username pattern) suspicious_patterns
                then Inr (True, Some Suspicious_username_pattern)
              else if 10 * length (filter isdigit (member_name m)) > 7 * length (member_name m)
                then Inr (True, Some Username_mostly_numbers)
              else Inr (False, None)))"

text \<open>
  The loop of \<^verbatim>\<open>detect_raid\<close> (lines 77-78) and \<^verbatim>\<open>detect_raid\<close> itself (lines 72-81).
\<close>

fun expire_joins :: "datetime \<Rightarrow> datetime list \<Rightarrow> datetime list" where
  "expire_joins now [] = []"
| "expire_joins now (t # joins) =
     (if now - t > timedelta_seconds RAID_TIME_WINDOW
      then expire_joins now joins
      else t # joins)"

definition detect_raid :: "datetime \<Rightarrow> raid_state \<Rightarrow> bool \<times> raid_state" where
  "detect_raid now s =
     (let joins = expire_joins now (join_tracking s)
      in (length joins \<ge> RAID_JOIN_LIMIT, s\<lparr>join_tracking := joins\<rparr>))"

text \<open>
  \<^verbatim>\<open>deactivate_raid_protection\<close> (lines 129-143) and \<^verbatim>\<open>activate_raid_protection\<close>
  (lines 83-127). The activation ends in \<^verbatim>\<open>await asyncio.sleep(1800)\<close> (line 126) followed
  by the call of the deactivation (line 127); the sleep is evaluated in the globals of
  \<^verbatim>\<open>anti_raid.py\<close>.
\<close>

definition deactivate_raid_protection :: "platform \<Rightarrow> raid_state \<Rightarrow> raid_state \<times> call list" where
  "deactivate_raid_protection p s =
     (if \<not> raid_protection_active s then (s, [])
      else
        (s\<lparr>raid_protection_active := False, suspicious_users := {}\<rparr>,
         [Edit_Verification_Level Level_medium]
         @ log_raid_action p ''RAID PROTECTION DEACTIVATED''))"

text \<open>
  The coroutine that sleeps inside \<^verbatim>\<open>activate_raid_protection\<close> is the one that awaits
  it: a join handler, whose continuation keeps what that handler still needs (the member
  and the verdict of \<^verbatim>\<open>is_suspicious_account\<close>), or the command \<^verbatim>\<open>raidprotection on\<close>.
\<close>

datatype raid_resume = Resume_activate_raid_protection user_id bool | Resume_raidprotection_on

definition activate_raid_protection ::
  "platform \<Rightarrow> raid_resume \<Rightarrow> raid_state \<Rightarrow> raid_state \<times> call list \<times> raid_resume status" where
  "activate_raid_protection p k s =
     (if raid_protection_active s then (s, [], Done)
      else
        let s = s\<lparr>raid_protection_active := True\<rparr>;
            calls = [Edit_Verification_Level Level_high]
                    @ log_raid_action p ''RAID PROTECTION ACTIVATED''
                    @ (if log_channel p then [Send_Alert] else [])
        in (s, calls, asyncio_sleep anti_raid_globals 1800 k))"

text \<open>
  The end of \<^verbatim>\<open>on_member_join\<close> (lines 184-201): the kick of a suspicious account while
  the protection is active, a timeout of one hour when the kick is refused, a log entry
  when that is refused too.
\<close>

definition handle_suspicious :: "platform \<Rightarrow> user_id \<Rightarrow> bool \<Rightarrow> raid_state \<Rightarrow> call list" where
  "handle_suspicious p uid is_suspicious s =
     (if raid_protection_active s \<and> is_suspicious then
        (if can_kick p then [Kick uid] @ log_raid_action p ''SUSPICIOUS USER KICKED''
         else if can_timeout p
           then [Kick uid, Timeout uid (timedelta_hours 1)] @ log_raid_action p ''SUSPICIOUS USER TIMED OUT''
         else [Kick uid, Timeout uid (timedelta_hours 1)]
              @ log_raid_action p ''SUSPICIOUS USER DETECTED (No Permission)'')
      else [])"

text \<open>
  \<^verbatim>\<open>on_member_join\<close> (lines 145-201). It reads the clock three times: \<open>now\<close> for the entry
  appended to \<^verbatim>\<open>join_tracking\<close> (line 149), \<open>utcnow\<close> in \<^verbatim>\<open>is_suspicious_account\<close>, and
  \<open>now'\<close> in \<^verbatim>\<open>detect_raid\<close>, after the log channel was written to. An exception raised
  in \<^verbatim>\<open>is_suspicious_account\<close> (line 155) or in \<^verbatim>\<open>activate_raid_protection\<close> (line 182)
  is not caught in the handler and ends it.
\<close>

definition on_member_join ::
  "platform \<Rightarrow> member \<Rightarrow> datetime \<Rightarrow> datetime \<Rightarrow> datetime \<Rightarrow> raid_state
     \<Rightarrow> raid_state \<times> call list \<times> raid_resume status" where
  "on_member_join p m now utcnow now' s =
     (let s = s\<lparr>join_tracking := join_tracking s @ [now]\<rparr>
      in case is_suspicious_account m utcnow of
           Inl e \<Rightarrow> (s, [], Raised e)
         | Inr (is_suspicious, reason) \<Rightarrow>
             (let (s, c1) =
                    (if log_channel p then
                       ((if is_suspicious
                         then s\<lparr>suspicious_users := insert (member_id m) (suspicious_users s)\<rparr> else s),
                        [Log_Join (member_id m) is_suspicious])
                     else (s, []));
                  (raid, s) = detect_raid now' s;
                  (s, c2, st) =
                    (if raid
                     then activate_raid_protection p
                            (Resume_activate_raid_protection (member_id m) is_suspicious) s
                     else (s, [], Done))
              in case st of
                   Done \<Rightarrow> (s, c1 @ c2 @ handle_suspicious p (member_id m) is_suspicious s, Done)
                 | Raised e \<Rightarrow> (s, c1 @ c2, Raised e)
                 | Sleeping d k \<Rightarrow> (s, c1 @ c2, Sleeping d k)))"

text \<open>
  The command \<^verbatim>\<open>raidprotection\<close> (lines 229-278), which a member with the manage-guild
  permission gives with an optional action; the action is compared in lower case. The
  replies are the texts of the source without their leading symbol and back quotes. An exception raised in
  \<^verbatim>\<open>activate_raid_protection\<close> (line 260) ends the command before its reply.
\<close>

definition raid_protection_command ::
  "platform \<Rightarrow> string option \<Rightarrow> raid_state \<Rightarrow> raid_state \<times> call list \<times> raid_resume status" where
  "raid_protection_command p act s =
     (case act of
        None \<Rightarrow> (s, [Send_Reply ''Raid Protection Status''], Done)
      | Some a \<Rightarrow>
          if map char_lower a = ''on'' then
            (if \<not> raid_protection_active s then
               (let (s, c, st) = activate_raid_protection p Resume_raidprotection_on s
                in case st of
                     Done \<Rightarrow> (s, c @ [Send_Reply ''Raid protection manually activated!''], Done)
                   | Raised e \<Rightarrow> (s, c, Raised e)
                   | Sleeping d k \<Rightarrow> (s, c, Sleeping d k))
             else (s, [Send_Reply ''Raid protection is already active!''], Done))
          else if map char_lower a = ''off'' then
            (if raid_protection_active s then
               (let (s, c) = deactivate_raid_protection p s
                in (s, c @ [Send_Reply ''Raid protection deactivated!''], Done))
             else (s, [Send_Reply ''Raid protection is already inactive!''], Done))
          else if map char_lower a = ''clear'' then
            (s\<lparr>join_tracking := [], suspicious_users := {}\<rparr>,
             [Send_Reply ''Raid protection tracking cleared!''], Done)
          else (s, [Send_Reply ''Invalid action! Use on, off, or clear''], Done))"

text \<open>
  Where a coroutine parked at line 126 resumes: the deactivation of line 127, then the
  rest of \<^verbatim>\<open>on_member_join\<close> or the reply of the command.
\<close>

definition raid_resume_at ::
  "platform \<Rightarrow> raid_resume \<Rightarrow> raid_state \<Rightarrow> raid_state \<times> call list \<times> raid_resume status" where
  "raid_resume_at p k s =
     (case k of
        Resume_activate_raid_protection uid is_suspicious \<Rightarrow>
          (let (s, c) = deactivate_raid_protection p s
           in (s, c @ handle_suspicious p uid is_suspicious s, Done))
      | Resume_raidprotection_on \<Rightarrow>
          (let (s, c) = deactivate_raid_protection p s
           in (s, c @ [Send_Reply ''Raid protection manually activated!''], Done)))"

section \<open>Runs and concrete inputs\<close>

text \<open>
  A run of messages of one author: one run of \<open>on_message\<close>, up to its return or first
  sleep, per clock reading. The result is the state, the calls made, and how each handler
  left.
\<close>

fun on_messages ::
  "platform \<Rightarrow> message \<Rightarrow> datetime list \<Rightarrow> spam_state
     \<Rightarrow> spam_state \<times> call list \<times> spam_resume status list" where
  "on_messages p m [] s = (s, [], [])"
| "on_messages p m (t # ts) s =
     (let (s, c, st) = on_message p m t s;
          (s, cs, sts) = on_messages p m ts s
      in (s, c @ cs, st # sts))"

text \<open>A platform that refuses nothing, with a log channel, and an ordinary member's message.\<close>

definition permissive :: platform where
  "permissive =
     \<lparr>log_channel = True, can_send = True, can_kick = True, can_timeout = True,
      can_remove_roles = True, get_member = Map.empty, audit_logs = (\<lambda>k. None)\<rparr>"

definition member_message :: message where
  "member_message =
     \<lparr>author_id = 1, author_bot = False, in_guild = True, author_manage_messages = False\<rparr>"

text \<open>
  Thirty-one messages two seconds apart (at 0 s, 2 s, ..., 60 s): the thirty-first is the
  first breach. The handler of that message sleeps 10 s, logs, and sleeps 30 s more; the
  author sends a thirty-second message at 80 s, and the re-check runs at 100 s.
\<close>

definition slow_sender_times :: "datetime list" where
  "slow_sender_times = map (\<lambda>i. timedelta_seconds (2 * int i)) [0..<31]"

definition slow_sender_warned :: "spam_state \<times> call list \<times> spam_resume status list" where
  "slow_sender_warned = on_messages permissive member_message slow_sender_times spam_init"

definition slow_sender_after_10 :: "spam_state \<times> call list \<times> spam_resume status" where
  "slow_sender_after_10 = on_message_after_10 permissive 1 (fst slow_sender_warned)"

definition slow_sender_extra :: "spam_state \<times> call list \<times> spam_resume status" where
  "slow_sender_extra =
     on_message permissive member_message (timedelta_seconds 80) (fst slow_sender_after_10)"

definition slow_sender_recheck :: "spam_state \<times> call list \<times> spam_resume status" where
  "slow_sender_recheck =
     on_message_after_30 permissive 1 (timedelta_seconds 100) (fst slow_sender_extra)"

text \<open>
  Thirty-one messages a tenth of a second apart (at 0 s, 0.1 s, ..., 3 s), and none
  after them; the handler of the thirty-first sleeps and re-checks at 43 s. The same
  run on a platform that refuses the kick, and on one that refuses kick and timeout.
\<close>

definition fast_sender_times :: "datetime list" where
  "fast_sender_times = map (\<lambda>i. 100000 * int i) [0..<31]"

definition fast_sender_recheck :: "platform \<Rightarrow> spam_state \<times> call list \<times> spam_resume status" where
  "fast_sender_recheck p =
     on_message_after_30 p 1 (timedelta_seconds 43)
       (fst (on_message_after_10 p 1
          (fst (on_messages p member_message fast_sender_times spam_init))))"

text \<open>
  A member who sent thirty messages within the last three seconds, not warned and warned,
  and a member with three old messages.
\<close>

definition thirty_recent :: spam_state where
  "thirty_recent =
     \<lparr>user_messages = [1 \<mapsto> map (\<lambda>i. 100000 * int i) [0..<30]], warned_users = {}\<rparr>"

definition thirty_recent_warned :: spam_state where
  "thirty_recent_warned = thirty_recent\<lparr>warned_users := {1}\<rparr>"

definition three_old_warned :: spam_state where
  "three_old_warned = \<lparr>user_messages = [1 \<mapsto> [0, 1000000, 2000000]], warned_users = {1}\<rparr>"

text \<open>
  Member 7 holds an ordinary role and an administrator role and deletes six channels, one
  per second; the audit log names the member as the one who deleted channel 100. The
  sixth deletion reaches the listener at 5 s, after five recorded ones.
\<close>

definition plain_role :: role where
  "plain_role = \<lparr>role_id = 11, permissions = [''send_messages'']\<rparr>"

definition admin_role :: role where
  "admin_role = \<lparr>role_id = 10, permissions = [''send_messages'', ''administrator'']\<rparr>"

definition nuke_platform :: platform where
  "nuke_platform =
     permissive\<lparr>get_member := [7 \<mapsto> [plain_role, admin_role]],
                audit_logs := (\<lambda>k. if k = Audit_channel_delete
                                     then Some \<lparr>target_id = 100, entry_user = 7\<rparr> else None)\<rparr>"

definition six_deletions :: "(string \<times> datetime) list" where
  "six_deletions = map (\<lambda>i. (''channel_delete'', timedelta_seconds (int i))) [0..<6]"

definition sixth_deletion :: "platform \<Rightarrow> nuke_state \<times> call list \<times> nuke_resume status" where
  "sixth_deletion p =
     on_guild_channel_delete p 100 (timedelta_seconds 5)
       (snd (track_actions 7 (take 5 six_deletions) nuke_init))"

text \<open>
  Joins as the event loop sees them: the handler of a join at time \<open>t\<close> runs up to its
  return, raise or sleep, with \<open>t\<close> as the reading of both calls of \<^verbatim>\<open>datetime.now()\<close>.
\<close>

fun joins ::
  "platform \<Rightarrow> datetime \<Rightarrow> (member \<times> datetime) list \<Rightarrow> (raid_state, raid_resume) event_loop
     \<Rightarrow> (raid_state, raid_resume) event_loop \<times> call list \<times> raid_resume status list" where
  "joins p utcnow [] L = (L, [], [])"
| "joins p utcnow ((m, t) # rest) L =
     (let st = snd (snd (on_member_join p m t utcnow t (cog L)));
          (L, c) = run_handler (on_member_join p m t utcnow t) t L;
          (L, cs, sts) = joins p utcnow rest L
      in (L, c @ cs, st # sts))"

text \<open>
  Ten established accounts (created on day 0, with avatar and an ordinary name) join one
  second apart on day 100; their \<^verbatim>\<open>created_at\<close> is aware, as the library delivers it.
\<close>

definition established :: "user_id \<Rightarrow> member" where
  "established i =
     \<lparr>member_id = i, created_at = Aware 0, avatar = Some ''avatar.png'', member_name = ''alice''\<rparr>"

definition ten_joins :: "(member \<times> datetime) list" where
  "ten_joins = map (\<lambda>i. (established (int i), timedelta_seconds (int i))) [0..<10]"

definition after_ten_joins ::
  "(raid_state, raid_resume) event_loop \<times> call list \<times> raid_resume status list" where
  "after_ten_joins = joins permissive (timedelta_days 100) ten_joins \<lparr>cog = raid_init, sleeping = []\<rparr>"

text \<open>
  A moderator gives the command \<^verbatim>\<open>raidprotection on\<close> at time 0 while the protection is
  inactive and nothing is parked.
\<close>

definition manual_activation :: "(raid_state, raid_resume) event_loop \<times> call list" where
  "manual_activation =
     run_handler (raid_protection_command permissive (Some ''on'')) 0 \<lparr>cog = raid_init, sleeping = []\<rparr>"

text \<open>
  An account created on day 98 joins on day 100, ten seconds after that command, while
  the protection is active.
\<close>

definition two_days_old :: member where
  "two_days_old =
     \<lparr>member_id = 42, created_at = Aware (timedelta_days 98), avatar = Some ''avatar.png'',
      member_name = ''alice''\<rparr>"

definition eleventh_join :: "platform \<Rightarrow> raid_state \<times> call list \<times> raid_resume status" where
  "eleventh_join p =
     on_member_join p two_days_old (timedelta_seconds 10) (timedelta_days 100) (timedelta_seconds 10)
       (cog (fst manual_activation))"

section \<open>Notions used to state the properties\<close>

text \<open>\<open>in_window w now t\<close>: the timestamp \<open>t\<close> is not older than \<open>w\<close> at time \<open>now\<close>.\<close>

definition in_window :: "timedelta \<Rightarrow> datetime \<Rightarrow> datetime \<Rightarrow> bool" where
  "in_window w now t = (now - w \<le> t)"

section \<open>The sliding windows\<close>

text \<open>
  Each of the three loops drops the longest prefix of entries that are not in the window.
\<close>

lemma expire_messages_dropWhile:
  "expire_messages now q = dropWhile (\<lambda>t. \<not> in_window (timedelta_seconds 60) now t) q"
  by (induction q) (auto simp: in_window_def timedelta_minutes_def timedelta_seconds_def)

lemma expire_joins_dropWhile:
  "expire_joins now q = dropWhile (\<lambda>t. \<not> in_window (timedelta_seconds 60) now t) q"
  by (induction q) (auto simp: in_window_def RAID_TIME_WINDOW_def timedelta_seconds_def)

lemma expire_actions_dropWhile:
  "expire_actions now q = dropWhile (\<lambda>a. \<not> in_window (timedelta_seconds 60) now (time a)) q"
  by (induction q) (auto simp: in_window_def NUKE_TIME_WINDOW_def timedelta_seconds_def)

text \<open>On a chronological deque the dropped prefix holds every entry outside the window.\<close>

lemma dropWhile_sorted_filter:
  fixes f :: "'a \<Rightarrow> int"
  assumes "sorted (map f q)"
  shows "dropWhile (\<lambda>a. \<not> in_window w now (f a)) q = filter (\<lambda>a. in_window w now (f a)) q"
  using assms
proof (induction q)
  case Nil
  show ?case by simp
next
  case (Cons a q)
  show ?case
  proof (cases "in_window w now (f a)")
    case True
    with Cons.prems have "\<forall>b \<in> set q. in_window w now (f b)"
      by (auto simp: in_window_def)
    with True show ?thesis by simp
  next
    case False
    with Cons show ?thesis by simp
  qed
qed

lemma takeWhile_sorted_filter:
  fixes f :: "'a \<Rightarrow> int"
  assumes "sorted (map f q)"
  shows "takeWhile (\<lambda>a. \<not> in_window w now (f a)) q = filter (\<lambda>a. \<not> in_window w now (f a)) q"
  using assms
proof (induction q)
  case Nil
  show ?case by simp
next
  case (Cons a q)
  show ?case
  proof (cases "in_window w now (f a)")
    case True
    with Cons.prems have "\<forall>b \<in> set q. in_window w now (f b)"
      by (auto simp: in_window_def)
    with True show ?thesis by simp
  next
    case False
    with Cons show ?thesis by simp
  qed
qed

lemma split_older_kept:
  fixes f :: "'a \<Rightarrow> int"
  assumes "sorted (map f q)"
  shows "q = filter (\<lambda>a. \<not> in_window w now (f a)) q @ filter (\<lambda>a. in_window w now (f a)) q"
proof -
  have "q = takeWhile (\<lambda>a. \<not> in_window w now (f a)) q @ dropWhile (\<lambda>a. \<not> in_window w now (f a)) q"
    by simp
  then show ?thesis
    using assms by (simp only: takeWhile_sorted_filter dropWhile_sorted_filter)
qed

lemma filter_window_later:
  "t1 \<le> t2 \<Longrightarrow> filter (\<lambda>a. in_window w t2 (f a)) (filter (\<lambda>a. in_window w t1 (f a)) q)
     = filter (\<lambda>a. in_window w t2 (f a)) q"
  by (induction q) (auto simp: in_window_def)

lemma sorted_filter_map: "sorted (map f q) \<Longrightarrow> sorted (map f (filter P q))"
  by (induction q) auto

lemma is_spam_window:
  assumes "sorted (window_of (user_messages s) uid)"
  shows "is_spam uid now s =
    (length (filter (in_window (timedelta_seconds SPAM_TIME_WINDOW) now) (window_of (user_messages s) uid @ [now]))
        > SPAM_MESSAGE_LIMIT,
     s\<lparr>user_messages := (user_messages s)(uid \<mapsto>
        filter (in_window (timedelta_seconds SPAM_TIME_WINDOW) now) (window_of (user_messages s) uid @ [now]))\<rparr>)"
proof -
  have m: "sorted (map (\<lambda>t. t) (window_of (user_messages s) uid))" using assms by simp
  have now: "in_window (timedelta_seconds SPAM_TIME_WINDOW) now now"
    by (simp add: in_window_def timedelta_seconds_def SPAM_TIME_WINDOW_def)
  show ?thesis
    using dropWhile_sorted_filter [OF m, of "timedelta_seconds 60" now] now
    by (simp add: Let_def is_spam_def expire_messages_dropWhile SPAM_TIME_WINDOW_def)
qed

lemma track_action_window:
  assumes "sorted (map time (window_of (action_tracking s) uid))" and "uid \<notin> trusted_users s"
  shows "track_action uid a now s =
    (length (filter (\<lambda>e. in_window (timedelta_seconds NUKE_TIME_WINDOW) now (time e))
        (window_of (action_tracking s) uid @ [\<lparr>time = now, action = a\<rparr>])) > NUKE_ACTION_LIMIT,
     s\<lparr>action_tracking := (action_tracking s)(uid \<mapsto>
        filter (\<lambda>e. in_window (timedelta_seconds NUKE_TIME_WINDOW) now (time e))
          (window_of (action_tracking s) uid @ [\<lparr>time = now, action = a\<rparr>]))\<rparr>)"
proof -
  have now: "in_window (timedelta_seconds NUKE_TIME_WINDOW) now now"
    by (simp add: in_window_def timedelta_seconds_def NUKE_TIME_WINDOW_def)
  show ?thesis
    using dropWhile_sorted_filter [OF assms(1), of "timedelta_seconds 60" now] now assms(2)
    by (simp add: Let_def track_action_def expire_actions_dropWhile NUKE_TIME_WINDOW_def)
qed

lemma detect_raid_window:
  assumes "sorted (join_tracking s)"
  shows "detect_raid now s =
    (length (filter (in_window (timedelta_seconds RAID_TIME_WINDOW) now) (join_tracking s)) \<ge> RAID_JOIN_LIMIT,
     s\<lparr>join_tracking := filter (in_window (timedelta_seconds RAID_TIME_WINDOW) now) (join_tracking s)\<rparr>)"
proof -
  have m: "sorted (map (\<lambda>t. t) (join_tracking s))" using assms by simp
  show ?thesis
    using dropWhile_sorted_filter [OF m, of "timedelta_seconds 60" now]
    by (simp add: Let_def detect_raid_def expire_joins_dropWhile RAID_TIME_WINDOW_def)
qed

text \<open>Runs of calls, from a state in which the user has no window yet.\<close>

lemma is_spam_run_append:
  "is_spam_run uid (xs @ ys) s =
     (let (bs, s') = is_spam_run uid xs s; (cs, s'') = is_spam_run uid ys s' in (bs @ cs, s''))"
  by (induction xs arbitrary: s) (simp_all add: case_prod_unfold Let_def)

lemma track_actions_append:
  "track_actions uid (xs @ ys) s =
     (let (bs, s') = track_actions uid xs s; (cs, s'') = track_actions uid ys s' in (bs @ cs, s''))"
proof (induction xs arbitrary: s)
  case Nil
  show ?case by (simp add: case_prod_unfold)
next
  case (Cons c xs)
  obtain a now where c: "c = (a, now)" by (cases c)
  show ?case by (simp add: c Cons.IH case_prod_unfold Let_def)
qed

lemma track_action_trusted_users [simp]:
  "trusted_users (snd (track_action uid a now s)) = trusted_users s"
  by (simp add: track_action_def Let_def)

lemma track_actions_trusted_users [simp]:
  "trusted_users (snd (track_actions uid calls s)) = trusted_users s"
proof (induction calls arbitrary: s)
  case Nil
  show ?case by simp
next
  case (Cons c calls)
  obtain a now where c: "c = (a, now)" by (cases c)
  have "trusted_users (snd (track_actions uid calls (snd (track_action uid a now s)))) = trusted_users s"
    by (simp add: Cons.IH)
  then show ?case by (simp add: c case_prod_unfold Let_def)
qed

lemma is_spam_run_window:
  assumes "ts \<noteq> []" and "sorted ts" and "user_messages s uid = None"
  shows "window_of (user_messages (snd (is_spam_run uid ts s))) uid
           = filter (in_window (timedelta_seconds SPAM_TIME_WINDOW) (last ts)) ts \<and>
         last (fst (is_spam_run uid ts s))
           = (length (filter (in_window (timedelta_seconds SPAM_TIME_WINDOW) (last ts)) ts) > SPAM_MESSAGE_LIMIT)"
  using assms
proof (induction ts rule: rev_nonempty_induct)
  case (single t)
  have "window_of (user_messages s) uid = []" using single by (simp add: window_of_def)
  then show ?case
    using is_spam_window [of s uid t] by (simp add: window_of_def)
next
  case (snoc t ts)
  let ?W = "timedelta_seconds SPAM_TIME_WINDOW"
  obtain bs s' where run: "is_spam_run uid ts s = (bs, s')" by (cases "is_spam_run uid ts s")
  from snoc have st: "sorted ts" and le: "last ts \<le> t"
    by (auto simp: sorted_append)
  from snoc.IH [OF st snoc.prems(2)] run
  have w: "window_of (user_messages s') uid = filter (in_window ?W (last ts)) ts" by simp
  then have "sorted (window_of (user_messages s') uid)"
    using st sorted_filter_map [of "\<lambda>t. t" ts] by simp
  from is_spam_window [OF this, of t]
  have step: "is_spam uid t s' =
      (length (filter (in_window ?W t) (ts @ [t])) > SPAM_MESSAGE_LIMIT,
       s'\<lparr>user_messages := (user_messages s')(uid \<mapsto> filter (in_window ?W t) (ts @ [t]))\<rparr>)"
    using filter_window_later [OF le, of ?W "\<lambda>t. t" ts]
    by (simp add: w)
  show ?case
    by (simp add: is_spam_run_append run step window_of_def)
qed

lemma track_actions_window:
  assumes "calls \<noteq> []" and "sorted (map snd calls)" and "action_tracking s uid = None"
      and "uid \<notin> trusted_users s"
  shows "window_of (action_tracking (snd (track_actions uid calls s))) uid
           = map (\<lambda>(a, t). \<lparr>time = t, action = a\<rparr>)
               (filter (\<lambda>(a, t). in_window (timedelta_seconds NUKE_TIME_WINDOW) (snd (last calls)) t) calls) \<and>
         last (fst (track_actions uid calls s))
           = (length (filter (\<lambda>(a, t). in_window (timedelta_seconds NUKE_TIME_WINDOW) (snd (last calls)) t) calls)
                > NUKE_ACTION_LIMIT)"
  using assms
proof (induction calls rule: rev_nonempty_induct)
  case (single c)
  obtain a t where c: "c = (a, t)" by (cases c)
  have "window_of (action_tracking s) uid = []" using single by (simp add: window_of_def)
  then show ?case
    using track_action_window [of s uid a t] single
    by (simp add: c window_of_def in_window_def timedelta_seconds_def NUKE_TIME_WINDOW_def)
next
  case (snoc c calls)
  let ?W = "timedelta_seconds NUKE_TIME_WINDOW"
  let ?mk = "\<lambda>(a, t). \<lparr>time = t, action = a\<rparr>"
  obtain a t where c: "c = (a, t)" by (cases c)
  obtain bs s' where run: "track_actions uid calls s = (bs, s')" by (cases "track_actions uid calls s")
  from snoc.prems(1) have st: "sorted (map snd calls)" and all: "\<forall>x \<in> set calls. snd x \<le> t"
    by (auto simp: sorted_append c)
  from all snoc.hyps have le: "snd (last calls) \<le> t" by simp
  have tr: "uid \<notin> trusted_users s'"
    using track_actions_trusted_users [of uid calls s] run snoc.prems by simp
  from snoc.IH [OF st snoc.prems(2,3)] run
  have w: "window_of (action_tracking s') uid
             = map ?mk (filter (\<lambda>(a, t). in_window ?W (snd (last calls)) t) calls)" by simp
  have tm: "time \<circ> ?mk = snd" by (auto simp: fun_eq_iff)
  have "sorted (map time (window_of (action_tracking s') uid))"
    unfolding w map_map tm using st by (rule sorted_filter_map)
  from track_action_window [OF this tr, of a t]
  have step: "track_action uid a t s' =
      (length (filter (\<lambda>(a, u). in_window ?W t u) (calls @ [(a, t)])) > NUKE_ACTION_LIMIT,
       s'\<lparr>action_tracking := (action_tracking s')(uid \<mapsto>
           map ?mk (filter (\<lambda>(a, u). in_window ?W t u) (calls @ [(a, t)])))\<rparr>)"
    using filter_window_later [OF le, of ?W snd calls]
    by (simp add: w filter_map comp_def case_prod_unfold in_window_def timedelta_seconds_def NUKE_TIME_WINDOW_def)
  show ?case
    by (simp add: track_actions_append run step c window_of_def)
qed

text \<open>
  Claim C1. Take a window whose entries are in chronological order, as the appends of
  the handlers leave it under a clock that does not run backwards. For each detector the
  update at time \<open>now\<close> splits the window into the entries older than \<open>now - W\<close>, which
  form a prefix and are all removed, and the entries with timestamp \<open>\<ge> now - W\<close>, which
  are all kept. The window after the update is exactly the list of events with timestamp
  \<open>\<ge> now - W\<close> (for the spam and nuke detectors with the current event appended, for the
  raid detector without, since \<^verbatim>\<open>detect_raid\<close> appends nothing), and the verdict compares
  the length of that list with the limit. For a whole run of \<open>N\<close> events at non-decreasing
  times, started without a window, the window after the last event is the list of those
  events of the run whose timestamp is \<open>\<ge> now - W\<close>, \<open>now\<close> being the time of the last one.
\<close>

theorem sliding_window_update:
  assumes "sorted (window_of (user_messages s) uid)"
      and "sorted (map time (window_of (action_tracking n) vid))" and "vid \<notin> trusted_users n"
      and "sorted (join_tracking r)"
      and "ts \<noteq> []" and "sorted ts" and "user_messages s0 uid = None"
      and "calls \<noteq> []" and "sorted (map snd calls)" and "action_tracking n0 vid = None"
      and "vid \<notin> trusted_users n0"
  shows
    "window_of (user_messages s) uid
        = filter (\<lambda>t. t < now - timedelta_seconds SPAM_TIME_WINDOW) (window_of (user_messages s) uid)
          @ filter (\<lambda>t. now - timedelta_seconds SPAM_TIME_WINDOW \<le> t) (window_of (user_messages s) uid) \<and>
     window_of (user_messages (snd (is_spam uid now s))) uid
        = filter (\<lambda>t. now - timedelta_seconds SPAM_TIME_WINDOW \<le> t) (window_of (user_messages s) uid @ [now]) \<and>
     fst (is_spam uid now s)
        = (SPAM_MESSAGE_LIMIT
             < length (filter (\<lambda>t. now - timedelta_seconds SPAM_TIME_WINDOW \<le> t)
                        (window_of (user_messages s) uid @ [now]))) \<and>
     window_of (action_tracking n) vid
        = filter (\<lambda>e. time e < now - timedelta_seconds NUKE_TIME_WINDOW) (window_of (action_tracking n) vid)
          @ filter (\<lambda>e. now - timedelta_seconds NUKE_TIME_WINDOW \<le> time e) (window_of (action_tracking n) vid) \<and>
     window_of (action_tracking (snd (track_action vid a now n))) vid
        = filter (\<lambda>e. now - timedelta_seconds NUKE_TIME_WINDOW \<le> time e)
            (window_of (action_tracking n) vid @ [\<lparr>time = now, action = a\<rparr>]) \<and>
     fst (track_action vid a now n)
        = (NUKE_ACTION_LIMIT
             < length (filter (\<lambda>e. now - timedelta_seconds NUKE_TIME_WINDOW \<le> time e)
                        (window_of (action_tracking n) vid @ [\<lparr>time = now, action = a\<rparr>]))) \<and>
     join_tracking r
        = filter (\<lambda>t. t < now - timedelta_seconds RAID_TIME_WINDOW) (join_tracking r)
          @ filter (\<lambda>t. now - timedelta_seconds RAID_TIME_WINDOW \<le> t) (join_tracking r) \<and>
     join_tracking (snd (detect_raid now r))
        = filter (\<lambda>t. now - timedelta_seconds RAID_TIME_WINDOW \<le> t) (join_tracking r) \<and>
     fst (detect_raid now r)
        = (RAID_JOIN_LIMIT
             \<le> length (filter (\<lambda>t. now - timedelta_seconds RAID_TIME_WINDOW \<le> t) (join_tracking r))) \<and>
     window_of (user_messages (snd (is_spam_run uid ts s0))) uid
        = filter (\<lambda>t. last ts - timedelta_seconds SPAM_TIME_WINDOW \<le> t) ts \<and>
     last (fst (is_spam_run uid ts s0))
        = (SPAM_MESSAGE_LIMIT
             < length (filter (\<lambda>t. last ts - timedelta_seconds SPAM_TIME_WINDOW \<le> t) ts)) \<and>
     map time (window_of (action_tracking (snd (track_actions vid calls n0))) vid)
        = filter (\<lambda>t. snd (last calls) - timedelta_seconds NUKE_TIME_WINDOW \<le> t) (map snd calls) \<and>
     last (fst (track_actions vid calls n0))
        = (NUKE_ACTION_LIMIT
             < length (filter (\<lambda>t. snd (last calls) - timedelta_seconds NUKE_TIME_WINDOW \<le> t) (map snd calls)))"
proof -
  have s1: "sorted (map (\<lambda>t. t) (window_of (user_messages s) uid))" using assms(1) by simp
  have r1: "sorted (map (\<lambda>t. t) (join_tracking r))" using assms(4) by simp
  have nt: "\<And>w t. (\<not> in_window w now t) = (t < now - w)" by (auto simp: in_window_def)
  note sp = split_older_kept [OF s1, of "timedelta_seconds SPAM_TIME_WINDOW" now]
  note np = split_older_kept [OF assms(2), of "timedelta_seconds NUKE_TIME_WINDOW" now]
  note rp = split_older_kept [OF r1, of "timedelta_seconds RAID_TIME_WINDOW" now]
  note ss = is_spam_window [OF assms(1), of now]
  note ns = track_action_window [OF assms(2,3), of a now]
  note rs = detect_raid_window [OF assms(4), of now]
  note sr = is_spam_run_window [OF assms(5,6,7)]
  note nr = track_actions_window [OF assms(8,9,10,11)]
  have tm: "time \<circ> (\<lambda>(a, t). \<lparr>time = t, action = a\<rparr>) = snd" by (auto simp: fun_eq_iff)
  have c1: "window_of (user_messages s) uid
        = filter (\<lambda>t. t < now - timedelta_seconds SPAM_TIME_WINDOW) (window_of (user_messages s) uid)
          @ filter (\<lambda>t. now - timedelta_seconds SPAM_TIME_WINDOW \<le> t) (window_of (user_messages s) uid)"
    using sp by (simp add: nt) (simp add: in_window_def)
  have c2: "window_of (action_tracking n) vid
        = filter (\<lambda>e. time e < now - timedelta_seconds NUKE_TIME_WINDOW) (window_of (action_tracking n) vid)
          @ filter (\<lambda>e. now - timedelta_seconds NUKE_TIME_WINDOW \<le> time e) (window_of (action_tracking n) vid)"
    using np by (simp add: nt) (simp add: in_window_def)
  have c3: "join_tracking r
        = filter (\<lambda>t. t < now - timedelta_seconds RAID_TIME_WINDOW) (join_tracking r)
          @ filter (\<lambda>t. now - timedelta_seconds RAID_TIME_WINDOW \<le> t) (join_tracking r)"
    using rp by (simp add: nt) (simp add: in_window_def)
  have c4: "map time (window_of (action_tracking (snd (track_actions vid calls n0))) vid)
        = filter (\<lambda>t. snd (last calls) - timedelta_seconds NUKE_TIME_WINDOW \<le> t) (map snd calls)"
    using nr by (simp add: tm filter_map comp_def case_prod_unfold in_window_def)
  have c5: "length (filter (\<lambda>t. snd (last calls) - timedelta_seconds NUKE_TIME_WINDOW \<le> t) (map snd calls))
      = length (filter (\<lambda>(a, t). in_window (timedelta_seconds NUKE_TIME_WINDOW) (snd (last calls)) t) calls)"
    by (simp add: filter_map comp_def case_prod_unfold in_window_def)
  show ?thesis
    apply (intro conjI)
    subgoal by (rule c1)
    subgoal by (simp add: ss window_of_def in_window_def [abs_def])
    subgoal by (simp add: ss in_window_def [abs_def])
    subgoal by (rule c2)
    subgoal by (simp add: ns window_of_def in_window_def [abs_def])
    subgoal by (simp add: ns in_window_def [abs_def])
    subgoal by (rule c3)
    subgoal by (simp add: rs in_window_def [abs_def])
    subgoal by (simp add: rs in_window_def [abs_def])
    subgoal using sr by (simp add: in_window_def [abs_def])
    subgoal using sr by (simp add: in_window_def [abs_def])
    subgoal by (rule c4)
    subgoal using nr unfolding c5 by blast
    done
qed

theorem sliding_window_update_witness:
  "sorted (window_of (user_messages \<lparr>user_messages = [1 \<mapsto> [0, 50000000, 100000000]], warned_users = {}\<rparr>) 1) \<and>
   sorted (map time (window_of (action_tracking
      (nuke_init\<lparr>action_tracking := [2 \<mapsto> [\<lparr>time = 0, action = ''role_delete''\<rparr>,
                                           \<lparr>time = 50000000, action = ''channel_delete''\<rparr>]]\<rparr>)) 2)) \<and>
   2 \<notin> trusted_users (nuke_init\<lparr>action_tracking := [2 \<mapsto> [\<lparr>time = 0, action = ''role_delete''\<rparr>,
                                           \<lparr>time = 50000000, action = ''channel_delete''\<rparr>]]\<rparr>) \<and>
   sorted (join_tracking (raid_init\<lparr>join_tracking := [0, 50000000, 100000000]\<rparr>)) \<and>
   [0, 30000000, 70000000] \<noteq> ([] :: int list) \<and> sorted [0, 30000000, 70000000 :: int] \<and>
   user_messages spam_init 1 = None \<and>
   [(''channel_delete'', 0), (''role_delete'', 70000000)] \<noteq> ([] :: (string \<times> int) list) \<and>
   sorted (map snd [(''channel_delete'', 0 :: int), (''role_delete'', 70000000)]) \<and>
   action_tracking nuke_init 2 = None \<and> 2 \<notin> trusted_users nuke_init \<and>
   window_of (user_messages (snd (is_spam 1 110000000
      \<lparr>user_messages = [1 \<mapsto> [0, 50000000, 100000000]], warned_users = {}\<rparr>))) 1
     = [50000000, 100000000, 110000000] \<and>
   fst (is_spam 1 110000000 \<lparr>user_messages = [1 \<mapsto> [0, 50000000, 100000000]], warned_users = {}\<rparr>) = False \<and>
   window_of (action_tracking (snd (track_action 2 ''channel_delete'' 110000000
      (nuke_init\<lparr>action_tracking := [2 \<mapsto> [\<lparr>time = 0, action = ''role_delete''\<rparr>,
                                           \<lparr>time = 50000000, action = ''channel_delete''\<rparr>]]\<rparr>)))) 2
     = [\<lparr>time = 50000000, action = ''channel_delete''\<rparr>, \<lparr>time = 110000000, action = ''channel_delete''\<rparr>] \<and>
   join_tracking (snd (detect_raid 110000000 (raid_init\<lparr>join_tracking := [0, 50000000, 100000000]\<rparr>)))
     = [50000000, 100000000] \<and>
   window_of (user_messages (snd (is_spam_run 1 [0, 30000000, 70000000] spam_init))) 1 = [30000000, 70000000] \<and>
   map time (window_of (action_tracking (snd (track_actions 2
      [(''channel_delete'', 0), (''role_delete'', 70000000)] nuke_init))) 2) = [70000000]"
  using sliding_window_update [of
      "\<lparr>user_messages = [1 \<mapsto> [0, 50000000, 100000000]], warned_users = {}\<rparr>" 1
      "nuke_init\<lparr>action_tracking := [2 \<mapsto> [\<lparr>time = 0, action = ''role_delete''\<rparr>,
                                           \<lparr>time = 50000000, action = ''channel_delete''\<rparr>]]\<rparr>" 2
      "raid_init\<lparr>join_tracking := [0, 50000000, 100000000]\<rparr>"
      "[0, 30000000, 70000000]" spam_init
      "[(''channel_delete'', 0), (''role_delete'', 70000000)]" nuke_init
      110000000 "''channel_delete''"]
  by (simp add: window_of_def nuke_init_def spam_init_def raid_init_def timedelta_seconds_def
      SPAM_TIME_WINDOW_def NUKE_TIME_WINDOW_def RAID_TIME_WINDOW_def
      SPAM_MESSAGE_LIMIT_def NUKE_ACTION_LIMIT_def RAID_JOIN_LIMIT_def
      del: is_spam_run.simps track_actions.simps)

section \<open>Trust exemption\<close>

lemma track_action_trusted: "uid \<in> trusted_users s \<Longrightarrow> track_action uid a now s = (False, s)"
  by (simp add: track_action_def)

lemma track_actions_trusted:
  "uid \<in> trusted_users s \<Longrightarrow> track_actions uid calls s = (replicate (length calls) False, s)"
proof (induction calls)
  case Nil
  show ?case by simp
next
  case (Cons c calls)
  obtain a now where c: "c = (a, now)" by (cases c)
  from Cons show ?case by (simp add: c track_action_trusted)
qed

text \<open>
  Claim C5. For a user id in the trusted set, \<^verbatim>\<open>track_action\<close> returns False for every
  action type and every clock reading and leaves the whole detector state as it was: the
  user's window is neither trimmed nor extended, and no entry is created for the user.
  The same holds for any run of calls, whatever its length: every call returns False and
  the state after the run is the state before it.
\<close>

theorem trusted_user_never_recorded:
  assumes "uid \<in> trusted_users s"
  shows "track_action uid action_type now s = (False, s) \<and>
         track_actions uid calls s = (replicate (length calls) False, s) \<and>
         action_tracking (snd (track_actions uid calls s)) uid = action_tracking s uid"
  using assms by (simp add: track_action_trusted track_actions_trusted)

theorem trusted_user_never_recorded_witness:
  "(7::int) \<in> trusted_users (nuke_init\<lparr>trusted_users := {7}\<rparr>) \<and>
   track_action 7 ''channel_delete'' 100 (nuke_init\<lparr>trusted_users := {7}\<rparr>)
     = (False, nuke_init\<lparr>trusted_users := {7}\<rparr>) \<and>
   track_actions 7 [(''channel_delete'', 100), (''role_delete'', 101), (''member_ban'', 102)]
       (nuke_init\<lparr>trusted_users := {7}\<rparr>)
     = ([False, False, False], nuke_init\<lparr>trusted_users := {7}\<rparr>)"
  using trusted_user_never_recorded [of 7 "nuke_init\<lparr>trusted_users := {7}\<rparr>" "''channel_delete''" 100
      "[(''channel_delete'', 100), (''role_delete'', 101), (''member_ban'', 102)]"]
  by (simp add: nuke_init_def del: track_actions.simps)

section \<open>Anti-spam: evaluation, warning and remediation\<close>

lemma window_of_upd [simp]: "window_of (m(k \<mapsto> q)) k = q"
  by (simp add: window_of_def)

lemma is_spam_fst:
  "fst (is_spam uid now s)
     = (SPAM_MESSAGE_LIMIT < Suc (length (expire_messages now (window_of (user_messages s) uid))))"
  by (simp add: is_spam_def Let_def)

lemma is_spam_snd:
  "snd (is_spam uid now s)
     = s\<lparr>user_messages := (user_messages s)(uid \<mapsto> expire_messages now (window_of (user_messages s) uid) @ [now])\<rparr>"
  by (simp add: is_spam_def Let_def)

lemma is_spam_warned [simp]: "warned_users (snd (is_spam uid now s)) = warned_users s"
  by (simp add: is_spam_snd)

lemma touch_is_spam [simp]: "touch uid (snd (is_spam uid now s)) = snd (is_spam uid now s)"
  by (simp add: touch_def is_spam_snd)

lemma length_expire_messages: "length (expire_messages now q) \<le> length q"
  by (induction q) auto

text \<open>Appending to what the loop leaves never gives back the deque the loop started from.\<close>

lemma snoc_eq_Cons_same: "q @ [x] = a # q \<Longrightarrow> x = a"
  by (induction q arbitrary: a) auto

lemma expire_messages_snoc_neq: "expire_messages now q @ [now] \<noteq> q"
proof (cases q)
  case Nil
  then show ?thesis by simp
next
  case (Cons a q')
  show ?thesis
  proof (cases "now - a > timedelta_minutes 1")
    case False
    then have "length (expire_messages now q @ [now]) = Suc (length q)" by (simp add: Cons)
    then show ?thesis by (metis n_not_Suc_n)
  next
    case True
    show ?thesis
    proof
      assume eq: "expire_messages now q @ [now] = q"
      then have e: "expire_messages now q' @ [now] = a # q'" using True by (simp add: Cons)
      then have "Suc (length (expire_messages now q')) = Suc (length q')"
        by (metis length_Cons length_append_singleton)
      then have "length (expire_messages now q') = length q'" by simp
      moreover have "expire_messages now q' = q'"
        using calculation
      proof (induction q')
        case Nil
        show ?case by simp
      next
        case (Cons b q'')
        show ?case
        proof (cases "now - b > timedelta_minutes 1")
          case True
          then have "length (expire_messages now (b # q'')) \<le> length q''"
            by (simp add: length_expire_messages)
          with Cons.prems show ?thesis by simp
        next
          case False
          then show ?thesis by simp
        qed
      qed
      ultimately have "q' @ [now] = a # q'" using e by simp
      then have "now = a" by (rule snoc_eq_Cons_same)
      with True show False by (simp add: timedelta_minutes_def timedelta_seconds_def)
    qed
  qed
qed

lemma in_expire_messages_snoc:
  "\<not> now - x > timedelta_minutes 1 \<Longrightarrow> x \<in> set (expire_messages now (q @ [x]))"
  by (induction q) auto

text \<open>
  Claim C10. Every evaluation of \<^verbatim>\<open>is_spam\<close> stores the trimmed window with the clock
  reading of the evaluation appended, so the stored window always changes and the verdict
  is taken on a count that includes the evaluation itself. The re-check after the grace
  period is such an evaluation: when it does not end in a kick, the window it leaves ends
  with the time of the re-check, at which no message was sent. Of two evaluations not more
  than a minute apart with nothing in between, the second counts the timestamp of the
  first: its window holds both clock readings and the verdict is taken on its length.
\<close>

theorem is_spam_records_every_evaluation:
  assumes "now2 - now1 \<le> timedelta_minutes 1" and "\<not> fst (is_spam uid now3 s3)"
  shows
    "window_of (user_messages (snd (is_spam uid now s))) uid
        = expire_messages now (window_of (user_messages s) uid) @ [now] \<and>
     user_messages (snd (is_spam uid now s)) uid \<noteq> user_messages s uid \<and>
     fst (is_spam uid now s)
        = (SPAM_MESSAGE_LIMIT < length (window_of (user_messages (snd (is_spam uid now s))) uid)) \<and>
     window_of (user_messages (fst (on_message_after_30 p uid now3 s3))) uid
        = expire_messages now3 (window_of (user_messages s3) uid) @ [now3] \<and>
     now1 \<in> set (window_of (user_messages (snd (is_spam uid now2 (snd (is_spam uid now1 s))))) uid) \<and>
     now2 \<in> set (window_of (user_messages (snd (is_spam uid now2 (snd (is_spam uid now1 s))))) uid) \<and>
     2 \<le> length (window_of (user_messages (snd (is_spam uid now2 (snd (is_spam uid now1 s))))) uid) \<and>
     fst (is_spam uid now2 (snd (is_spam uid now1 s)))
        = (SPAM_MESSAGE_LIMIT
             < length (window_of (user_messages (snd (is_spam uid now2 (snd (is_spam uid now1 s))))) uid))"
proof -
  let ?q = "window_of (user_messages s) uid"
  have c2: "user_messages (snd (is_spam uid now s)) uid \<noteq> user_messages s uid"
  proof (cases "user_messages s uid")
    case None
    then show ?thesis by (simp add: is_spam_snd)
  next
    case (Some q)
    then show ?thesis
      using expire_messages_snoc_neq [of now q] by (simp add: is_spam_snd window_of_def)
  qed
  have c4: "window_of (user_messages (fst (on_message_after_30 p uid now3 s3))) uid
        = expire_messages now3 (window_of (user_messages s3) uid) @ [now3]"
    using assms(2) by (simp add: on_message_after_30_def case_prod_unfold is_spam_snd)
  have in1: "now1 \<in> set (expire_messages now2 (expire_messages now1 ?q @ [now1]))"
    using assms(1) by (intro in_expire_messages_snoc) simp
  have len: "2 \<le> length (expire_messages now2 (expire_messages now1 ?q @ [now1]) @ [now2])"
  proof -
    from in1 have "expire_messages now2 (expire_messages now1 ?q @ [now1]) \<noteq> []" by auto
    then have "1 \<le> length (expire_messages now2 (expire_messages now1 ?q @ [now1]))"
      by (cases "expire_messages now2 (expire_messages now1 ?q @ [now1])") auto
    then show ?thesis by simp
  qed
  show ?thesis
    apply (intro conjI)
    subgoal by (simp add: is_spam_snd)
    subgoal by (rule c2)
    subgoal by (simp add: is_spam_snd is_spam_fst)
    subgoal by (rule c4)
    subgoal using in1 by (simp add: is_spam_snd)
    subgoal by (simp add: is_spam_snd)
    subgoal using len by (simp add: is_spam_snd)
    subgoal by (simp add: is_spam_snd is_spam_fst)
    done
qed

theorem is_spam_records_every_evaluation_witness:
  "(40000000::int) - 10000000 \<le> timedelta_minutes 1 \<and>
   \<not> fst (is_spam 1 50000000 three_old_warned) \<and>
   window_of (user_messages (snd (is_spam 1 10000000 three_old_warned))) 1
     = [0, 1000000, 2000000, 10000000] \<and>
   window_of (user_messages (fst (on_message_after_30 permissive 1 50000000 three_old_warned))) 1
     = [0, 1000000, 2000000, 50000000] \<and>
   window_of (user_messages (snd (is_spam 1 40000000 (snd (is_spam 1 10000000 three_old_warned))))) 1
     = [0, 1000000, 2000000, 10000000, 40000000]"
proof -
  have h1: "(40000000::int) - 10000000 \<le> timedelta_minutes 1" by code_simp
  have h2: "\<not> fst (is_spam 1 50000000 three_old_warned)" by code_simp
  from is_spam_records_every_evaluation [OF h1 h2, of 10000000 three_old_warned permissive] h1 h2
  show ?thesis by code_simp
qed

lemma asyncio_sleep_spam [simp]:
  "except_Exception (asyncio_sleep anti_spam_globals n k) = Sleeping (timedelta_seconds n) k"
  by (simp add: asyncio_sleep_def anti_spam_globals_def except_Exception_def)

lemma kick_and_clean_up_kick:
  "can_kick p \<Longrightarrow> kick_and_clean_up p uid (snd (is_spam uid now s))
     = ((snd (is_spam uid now s))\<lparr>user_messages := (user_messages (snd (is_spam uid now s)))(uid := None),
                                  warned_users := warned_users s - {uid}\<rparr>,
        [Kick uid] @ log_spam_action p uid ''KICKED''
           (length (window_of (user_messages (snd (is_spam uid now s))) uid)))"
  by (simp add: kick_and_clean_up_def Let_def)

lemma kick_and_clean_up_refused:
  "\<not> can_kick p \<Longrightarrow> kick_and_clean_up p uid (snd (is_spam uid now s))
     = (snd (is_spam uid now s),
        [Kick uid, Timeout uid (timedelta_minutes 10)]
        @ log_spam_action p uid (if can_timeout p then ''TIMED OUT (10 min)'' else ''DETECTED (No Permission)'')
           (length (window_of (user_messages (snd (is_spam uid now s))) uid)))"
  by (simp add: kick_and_clean_up_def except_Forbidden_def Let_def)

lemma kick_in_kick_and_clean_up: "Kick uid \<in> set (snd (kick_and_clean_up p uid s))"
  by (simp add: kick_and_clean_up_def except_Forbidden_def Let_def case_prod_unfold)

lemma on_message_warned:
  assumes "\<not> author_bot m" and "in_guild m" and "\<not> author_manage_messages m"
      and "author_id m \<in> warned_users s"
  shows "on_message p m now s =
     (if fst (is_spam (author_id m) now s)
      then (fst (kick_and_clean_up p (author_id m) (snd (is_spam (author_id m) now s))),
            snd (kick_and_clean_up p (author_id m) (snd (is_spam (author_id m) now s))), Done)
      else (snd (is_spam (author_id m) now s), [], Done))"
  using assms by (simp add: on_message_def Let_def case_prod_unfold)

text \<open>
  Claim C3, as amended. For a member who is not a bot, writes in a guild and lacks the
  manage-messages permission:
  \<^item> the message whose verdict is true while the member is not warned puts the member
    into the warned set, sends one direct message and one warning in the channel (the
    channel accepting it) and parks the handler for the first sleep; no kick is attempted;
  \<^item> no message of a member who is warned and no later segment of a handler sends a
    warning;
  \<^item> a further message of a warned member attempts the kick if and only if the verdict
    of that message is true; with the kick permitted the member's window is deleted and
    the member leaves the warned set; with the verdict false nothing is called and the
    member stays warned;
  \<^item> the re-check after the grace period, when fewer than thirty timestamps survive
    its trimming, removes the member from the warned set and calls nothing.
\<close>

theorem spam_warning_and_grace:
  assumes "\<not> author_bot m" and "in_guild m" and "\<not> author_manage_messages m"
      and "author_id m \<notin> warned_users s1" and "fst (is_spam (author_id m) t1 s1)" and "can_send p"
      and "author_id m \<in> warned_users s2" and "fst (is_spam (author_id m) t2 s2)" and "can_kick p"
      and "author_id m \<in> warned_users s4" and "\<not> fst (is_spam (author_id m) t4 s4)"
      and "length (expire_messages t3 (window_of (user_messages s3) uid)) < SPAM_MESSAGE_LIMIT"
      and "author_id m \<in> warned_users s"
  shows
    "on_message p m t1 s1 =
       ((snd (is_spam (author_id m) t1 s1))\<lparr>warned_users := insert (author_id m) (warned_users s1)\<rparr>,
        [Send_DM (author_id m), Send_Channel (author_id m)],
        Sleeping (timedelta_seconds 10) (Resume_after_10 (author_id m))) \<and>
     Send_Channel (author_id m) \<notin> set (fst (snd (on_message p m t s))) \<and>
     Send_Channel uid \<notin> set (fst (snd (on_message_after_10 p uid s'))) \<and>
     Send_Channel uid \<notin> set (fst (snd (on_message_after_30 p uid t s'))) \<and>
     (Kick (author_id m) \<in> set (fst (snd (on_message p m t s)))) = fst (is_spam (author_id m) t s) \<and>
     on_message p m t2 s2 =
       ((snd (is_spam (author_id m) t2 s2))
          \<lparr>user_messages := (user_messages (snd (is_spam (author_id m) t2 s2)))(author_id m := None),
           warned_users := warned_users s2 - {author_id m}\<rparr>,
        [Kick (author_id m)] @ log_spam_action p (author_id m) ''KICKED''
           (length (window_of (user_messages (snd (is_spam (author_id m) t2 s2))) (author_id m))),
        Done) \<and>
     on_message p m t4 s4 = (snd (is_spam (author_id m) t4 s4), [], Done) \<and>
     on_message_after_30 p uid t3 s3 =
       ((snd (is_spam uid t3 s3))\<lparr>warned_users := warned_users s3 - {uid}\<rparr>, [], Done)"
proof -
  note warned = on_message_warned [OF assms(1,2,3)]
  have a: "on_message p m t1 s1 =
       ((snd (is_spam (author_id m) t1 s1))\<lparr>warned_users := insert (author_id m) (warned_users s1)\<rparr>,
        [Send_DM (author_id m), Send_Channel (author_id m)],
        Sleeping (timedelta_seconds 10) (Resume_after_10 (author_id m)))"
    using assms(1-6) by (simp add: on_message_def Let_def case_prod_unfold)
  have nw: "\<And>q u. Send_Channel u \<notin> set (snd (kick_and_clean_up q u s'))" for s'
    by (simp add: kick_and_clean_up_def except_Forbidden_def Let_def case_prod_unfold log_spam_action_def)
  have b1: "Send_Channel (author_id m) \<notin> set (fst (snd (on_message p m t s)))"
    by (simp add: warned [OF assms(13)] nw)
  have b2: "Send_Channel uid \<notin> set (fst (snd (on_message_after_10 p uid s')))"
    by (simp add: on_message_after_10_def Let_def log_spam_action_def)
  have b3: "Send_Channel uid \<notin> set (fst (snd (on_message_after_30 p uid t s')))"
    by (simp add: on_message_after_30_def Let_def case_prod_unfold nw)
  have b4: "(Kick (author_id m) \<in> set (fst (snd (on_message p m t s)))) = fst (is_spam (author_id m) t s)"
    by (simp add: warned [OF assms(13)] kick_in_kick_and_clean_up)
  have c: "on_message p m t2 s2 =
       ((snd (is_spam (author_id m) t2 s2))
          \<lparr>user_messages := (user_messages (snd (is_spam (author_id m) t2 s2)))(author_id m := None),
           warned_users := warned_users s2 - {author_id m}\<rparr>,
        [Kick (author_id m)] @ log_spam_action p (author_id m) ''KICKED''
           (length (window_of (user_messages (snd (is_spam (author_id m) t2 s2))) (author_id m))),
        Done)"
    using assms(8) by (simp add: warned [OF assms(7)] kick_and_clean_up_kick [OF assms(9)])
  have d: "on_message p m t4 s4 = (snd (is_spam (author_id m) t4 s4), [], Done)"
    using assms(11) by (simp add: warned [OF assms(10)])
  have e: "on_message_after_30 p uid t3 s3 =
       ((snd (is_spam uid t3 s3))\<lparr>warned_users := warned_users s3 - {uid}\<rparr>, [], Done)"
    using assms(12) by (simp add: on_message_after_30_def case_prod_unfold is_spam_fst)
  from a b1 b2 b3 b4 c d e show ?thesis by blast
qed

theorem spam_warning_and_grace_witness:
  "\<not> author_bot member_message \<and> in_guild member_message \<and> \<not> author_manage_messages member_message \<and>
   author_id member_message \<notin> warned_users thirty_recent \<and>
   fst (is_spam (author_id member_message) 3000000 thirty_recent) \<and> can_send permissive \<and>
   author_id member_message \<in> warned_users thirty_recent_warned \<and>
   fst (is_spam (author_id member_message) 3000000 thirty_recent_warned) \<and> can_kick permissive \<and>
   author_id member_message \<in> warned_users three_old_warned \<and>
   \<not> fst (is_spam (author_id member_message) 70000000 three_old_warned) \<and>
   length (expire_messages 70000000 (window_of (user_messages three_old_warned) 1)) < SPAM_MESSAGE_LIMIT \<and>
   on_message permissive member_message 70000000 three_old_warned
     = (snd (is_spam (author_id member_message) 70000000 three_old_warned), [], Done) \<and>
   on_message_after_30 permissive 1 70000000 three_old_warned
     = ((snd (is_spam 1 70000000 three_old_warned))\<lparr>warned_users := warned_users three_old_warned - {1}\<rparr>,
        [], Done) \<and>
   fst (snd (on_message permissive member_message 3000000 thirty_recent)) = [Send_DM 1, Send_Channel 1] \<and>
   snd (snd (on_message permissive member_message 3000000 thirty_recent))
     = Sleeping 10000000 (Resume_after_10 1) \<and>
   1 \<in> warned_users (fst (on_message permissive member_message 3000000 thirty_recent)) \<and>
   fst (snd (on_message permissive member_message 3000000 thirty_recent_warned))
     = [Kick 1, Log_Spam 1 ''KICKED'' 31] \<and>
   1 \<notin> warned_users (fst (on_message permissive member_message 3000000 thirty_recent_warned)) \<and>
   user_messages (fst (on_message permissive member_message 3000000 thirty_recent_warned)) 1 = None \<and>
   1 \<in> warned_users (fst (on_message permissive member_message 70000000 three_old_warned)) \<and>
   1 \<notin> warned_users (fst (on_message_after_30 permissive 1 70000000 three_old_warned))"
proof -
  have h1: "\<not> author_bot member_message" by code_simp
  have h2: "in_guild member_message" by code_simp
  have h3: "\<not> author_manage_messages member_message" by code_simp
  have h4: "author_id member_message \<notin> warned_users thirty_recent" by code_simp
  have h5: "fst (is_spam (author_id member_message) 3000000 thirty_recent)" by code_simp
  have h6: "can_send permissive" by code_simp
  have h7: "author_id member_message \<in> warned_users thirty_recent_warned" by code_simp
  have h8: "fst (is_spam (author_id member_message) 3000000 thirty_recent_warned)" by code_simp
  have h9: "can_kick permissive" by code_simp
  have h10: "author_id member_message \<in> warned_users three_old_warned" by code_simp
  have h11: "\<not> fst (is_spam (author_id member_message) 70000000 three_old_warned)" by code_simp
  have h12: "length (expire_messages 70000000 (window_of (user_messages three_old_warned) 1)) < SPAM_MESSAGE_LIMIT"
    by code_simp
  note t = spam_warning_and_grace [OF h1 h2 h3 h4 h5 h6 h7 h8 h9 h10 h11 h12 h7,
      where t = 3000000 and s' = three_old_warned]
  have ev:
    "fst (snd (on_message permissive member_message 3000000 thirty_recent)) = [Send_DM 1, Send_Channel 1] \<and>
     snd (snd (on_message permissive member_message 3000000 thirty_recent))
       = Sleeping 10000000 (Resume_after_10 1) \<and>
     1 \<in> warned_users (fst (on_message permissive member_message 3000000 thirty_recent)) \<and>
     fst (snd (on_message permissive member_message 3000000 thirty_recent_warned))
       = [Kick 1, Log_Spam 1 ''KICKED'' 31] \<and>
     1 \<notin> warned_users (fst (on_message permissive member_message 3000000 thirty_recent_warned)) \<and>
     user_messages (fst (on_message permissive member_message 3000000 thirty_recent_warned)) 1 = None \<and>
     1 \<in> warned_users (fst (on_message permissive member_message 70000000 three_old_warned)) \<and>
     1 \<notin> warned_users (fst (on_message_after_30 permissive 1 70000000 three_old_warned))"
    by code_simp
  from t h1 h2 h3 h4 h5 h6 h7 h8 h9 h10 h11 h12 ev show ?thesis by blast
qed

text \<open>
  Claim C3 as it was stated fails for the slow sender: thirty-one messages within sixty seconds, one
  warning at the thirty-first, a thirty-second message at 80 s while the handler of the
  warning is still asleep (it re-checks at 100 s) - and neither that message nor the
  re-check attempts a kick; the re-check removes the member from the warned set.
\<close>

theorem extra_message_in_grace_not_kicked:
  "length slow_sender_times = 31 \<and>
   last slow_sender_times - hd slow_sender_times \<le> timedelta_seconds 60 \<and>
   fst (snd slow_sender_warned) = [Send_DM 1, Send_Channel 1] \<and>
   last (snd (snd slow_sender_warned)) = Sleeping (timedelta_seconds 10) (Resume_after_10 1) \<and>
   1 \<in> warned_users (fst slow_sender_warned) \<and>
   snd (snd slow_sender_after_10) = Sleeping (timedelta_seconds 30) (Resume_after_30 1) \<and>
   last slow_sender_times < timedelta_seconds 80 \<and>
   timedelta_seconds 80 < last slow_sender_times + timedelta_seconds 10 + timedelta_seconds 30 \<and>
   snd slow_sender_extra = ([], Done) \<and>
   1 \<in> warned_users (fst slow_sender_extra) \<and>
   snd slow_sender_recheck = ([], Done) \<and>
   1 \<notin> warned_users (fst slow_sender_recheck)"
  by code_simp

text \<open>
  The fast sender, who sends nothing after the warning, is kicked by the re-check: at
  43 s all thirty-one messages are still inside the minute, and the re-check adds its own
  timestamp to them.
\<close>

lemma silent_after_warning_kicked:
  "length fast_sender_times = 31 \<and>
   last fast_sender_times = timedelta_seconds 3 \<and>
   fst (snd (on_messages permissive member_message fast_sender_times spam_init))
     = [Send_DM 1, Send_Channel 1] \<and>
   snd (fast_sender_recheck permissive) = ([Kick 1, Log_Spam 1 ''KICKED'' 32], Done)"
  by code_simp

section \<open>Anti-spam: a refused kick\<close>

text \<open>
  Claim C9, as amended. Where the handler attempts the kick (a message of a warned
  member with a true verdict, or a re-check with a true verdict):
  \<^item> a permitted kick is followed by the log entry, the member's window is deleted and
    the member is removed from the warned set;
  \<^item> a refused kick is followed by a timeout of ten minutes and its log entry;
  \<^item> when the timeout is refused too, by the log entry alone;
  \<^item> the handler returns normally each time;
  \<^item> after either fallback the member is still in the warned set and the window is
    the one the evaluation stored.
\<close>

theorem spam_kick_fallback:
  assumes "\<not> author_bot m" and "in_guild m" and "\<not> author_manage_messages m"
      and "author_id m \<in> warned_users s" and "fst (is_spam (author_id m) now s)"
      and "fst (is_spam uid now' s')"
      and "can_kick p1"
      and "\<not> can_kick p2" and "can_timeout p2"
      and "\<not> can_kick p3" and "\<not> can_timeout p3"
  shows
    "on_message p1 m now s =
       ((snd (is_spam (author_id m) now s))
          \<lparr>user_messages := (user_messages (snd (is_spam (author_id m) now s)))(author_id m := None),
           warned_users := warned_users s - {author_id m}\<rparr>,
        [Kick (author_id m)] @ log_spam_action p1 (author_id m) ''KICKED''
           (length (window_of (user_messages (snd (is_spam (author_id m) now s))) (author_id m))),
        Done) \<and>
     on_message p2 m now s =
       (snd (is_spam (author_id m) now s),
        [Kick (author_id m), Timeout (author_id m) (timedelta_minutes 10)]
        @ log_spam_action p2 (author_id m) ''TIMED OUT (10 min)''
           (length (window_of (user_messages (snd (is_spam (author_id m) now s))) (author_id m))),
        Done) \<and>
     on_message p3 m now s =
       (snd (is_spam (author_id m) now s),
        [Kick (author_id m), Timeout (author_id m) (timedelta_minutes 10)]
        @ log_spam_action p3 (author_id m) ''DETECTED (No Permission)''
           (length (window_of (user_messages (snd (is_spam (author_id m) now s))) (author_id m))),
        Done) \<and>
     on_message_after_30 p1 uid now' s' =
       ((snd (is_spam uid now' s'))
          \<lparr>user_messages := (user_messages (snd (is_spam uid now' s')))(uid := None),
           warned_users := warned_users s' - {uid}\<rparr>,
        [Kick uid] @ log_spam_action p1 uid ''KICKED''
           (length (window_of (user_messages (snd (is_spam uid now' s'))) uid)),
        Done) \<and>
     on_message_after_30 p2 uid now' s' =
       (snd (is_spam uid now' s'),
        [Kick uid, Timeout uid (timedelta_minutes 10)]
        @ log_spam_action p2 uid ''TIMED OUT (10 min)''
           (length (window_of (user_messages (snd (is_spam uid now' s'))) uid)),
        Done) \<and>
     on_message_after_30 p3 uid now' s' =
       (snd (is_spam uid now' s'),
        [Kick uid, Timeout uid (timedelta_minutes 10)]
        @ log_spam_action p3 uid ''DETECTED (No Permission)''
           (length (window_of (user_messages (snd (is_spam uid now' s'))) uid)),
        Done) \<and>
     author_id m \<in> warned_users (fst (on_message p2 m now s)) \<and>
     author_id m \<in> warned_users (fst (on_message p3 m now s)) \<and>
     user_messages (fst (on_message p2 m now s)) (author_id m)
       = Some (expire_messages now (window_of (user_messages s) (author_id m)) @ [now]) \<and>
     user_messages (fst (on_message p3 m now s)) (author_id m)
       = Some (expire_messages now (window_of (user_messages s) (author_id m)) @ [now]) \<and>
     warned_users (fst (on_message_after_30 p2 uid now' s')) = warned_users s' \<and>
     warned_users (fst (on_message_after_30 p3 uid now' s')) = warned_users s' \<and>
     user_messages (fst (on_message_after_30 p2 uid now' s')) uid
       = Some (expire_messages now' (window_of (user_messages s') uid) @ [now']) \<and>
     user_messages (fst (on_message_after_30 p3 uid now' s')) uid
       = Some (expire_messages now' (window_of (user_messages s') uid) @ [now'])"
proof -
  note warned = on_message_warned [OF assms(1,2,3,4), of _ now]
  have m1: "on_message p1 m now s =
       ((snd (is_spam (author_id m) now s))
          \<lparr>user_messages := (user_messages (snd (is_spam (author_id m) now s)))(author_id m := None),
           warned_users := warned_users s - {author_id m}\<rparr>,
        [Kick (author_id m)] @ log_spam_action p1 (author_id m) ''KICKED''
           (length (window_of (user_messages (snd (is_spam (author_id m) now s))) (author_id m))),
        Done)"
    using assms(5) by (simp add: warned kick_and_clean_up_kick [OF assms(7)])
  have m2: "on_message p2 m now s =
       (snd (is_spam (author_id m) now s),
        [Kick (author_id m), Timeout (author_id m) (timedelta_minutes 10)]
        @ log_spam_action p2 (author_id m) ''TIMED OUT (10 min)''
           (length (window_of (user_messages (snd (is_spam (author_id m) now s))) (author_id m))),
        Done)"
    using assms(5,9) by (simp add: warned kick_and_clean_up_refused [OF assms(8)])
  have m3: "on_message p3 m now s =
       (snd (is_spam (author_id m) now s),
        [Kick (author_id m), Timeout (author_id m) (timedelta_minutes 10)]
        @ log_spam_action p3 (author_id m) ''DETECTED (No Permission)''
           (length (window_of (user_messages (snd (is_spam (author_id m) now s))) (author_id m))),
        Done)"
    using assms(5,11) by (simp add: warned kick_and_clean_up_refused [OF assms(10)])
  have r1: "on_message_after_30 p1 uid now' s' =
       ((snd (is_spam uid now' s'))
          \<lparr>user_messages := (user_messages (snd (is_spam uid now' s')))(uid := None),
           warned_users := warned_users s' - {uid}\<rparr>,
        [Kick uid] @ log_spam_action p1 uid ''KICKED''
           (length (window_of (user_messages (snd (is_spam uid now' s'))) uid)),
        Done)"
    using assms(6)
    by (simp add: on_message_after_30_def Let_def case_prod_unfold kick_and_clean_up_kick [OF assms(7)])
  have r2: "on_message_after_30 p2 uid now' s' =
       (snd (is_spam uid now' s'),
        [Kick uid, Timeout uid (timedelta_minutes 10)]
        @ log_spam_action p2 uid ''TIMED OUT (10 min)''
           (length (window_of (user_messages (snd (is_spam uid now' s'))) uid)),
        Done)"
    using assms(6,9)
    by (simp add: on_message_after_30_def Let_def case_prod_unfold kick_and_clean_up_refused [OF assms(8)])
  have r3: "on_message_after_30 p3 uid now' s' =
       (snd (is_spam uid now' s'),
        [Kick uid, Timeout uid (timedelta_minutes 10)]
        @ log_spam_action p3 uid ''DETECTED (No Permission)''
           (length (window_of (user_messages (snd (is_spam uid now' s'))) uid)),
        Done)"
    using assms(6,11)
    by (simp add: on_message_after_30_def Let_def case_prod_unfold kick_and_clean_up_refused [OF assms(10)])
  have s2: "author_id m \<in> warned_users (fst (on_message p2 m now s))"
    using assms(4) by (simp add: m2)
  have s3: "author_id m \<in> warned_users (fst (on_message p3 m now s))"
    using assms(4) by (simp add: m3)
  have w2: "user_messages (fst (on_message p2 m now s)) (author_id m)
       = Some (expire_messages now (window_of (user_messages s) (author_id m)) @ [now])"
    by (simp add: m2 is_spam_snd)
  have w3: "user_messages (fst (on_message p3 m now s)) (author_id m)
       = Some (expire_messages now (window_of (user_messages s) (author_id m)) @ [now])"
    by (simp add: m3 is_spam_snd)
  have t2: "warned_users (fst (on_message_after_30 p2 uid now' s')) = warned_users s'"
    by (simp add: r2)
  have t3: "warned_users (fst (on_message_after_30 p3 uid now' s')) = warned_users s'"
    by (simp add: r3)
  have x2: "user_messages (fst (on_message_after_30 p2 uid now' s')) uid
       = Some (expire_messages now' (window_of (user_messages s') uid) @ [now'])"
    by (simp add: r2 is_spam_snd)
  have x3: "user_messages (fst (on_message_after_30 p3 uid now' s')) uid
       = Some (expire_messages now' (window_of (user_messages s') uid) @ [now'])"
    by (simp add: r3 is_spam_snd)
  from m1 m2 m3 r1 r2 r3 s2 s3 w2 w3 t2 t3 x2 x3 show ?thesis by blast
qed

theorem spam_kick_fallback_witness:
  "\<not> author_bot member_message \<and> in_guild member_message \<and> \<not> author_manage_messages member_message \<and>
   author_id member_message \<in> warned_users thirty_recent_warned \<and>
   fst (is_spam (author_id member_message) 3000000 thirty_recent_warned) \<and>
   fst (is_spam 1 3000000 thirty_recent_warned) \<and>
   can_kick permissive \<and>
   \<not> can_kick (permissive\<lparr>can_kick := False\<rparr>) \<and> can_timeout (permissive\<lparr>can_kick := False\<rparr>) \<and>
   \<not> can_kick (permissive\<lparr>can_kick := False, can_timeout := False\<rparr>) \<and>
   \<not> can_timeout (permissive\<lparr>can_kick := False, can_timeout := False\<rparr>) \<and>
   warned_users (fst (on_message_after_30 (permissive\<lparr>can_kick := False\<rparr>) 1 3000000 thirty_recent_warned))
     = warned_users thirty_recent_warned \<and>
   snd (on_message permissive member_message 3000000 thirty_recent_warned)
     = ([Kick 1, Log_Spam 1 ''KICKED'' 31], Done) \<and>
   snd (on_message (permissive\<lparr>can_kick := False\<rparr>) member_message 3000000 thirty_recent_warned)
     = ([Kick 1, Timeout 1 600000000, Log_Spam 1 ''TIMED OUT (10 min)'' 31], Done) \<and>
   snd (on_message (permissive\<lparr>can_kick := False, can_timeout := False\<rparr>) member_message 3000000
          thirty_recent_warned)
     = ([Kick 1, Timeout 1 600000000, Log_Spam 1 ''DETECTED (No Permission)'' 31], Done) \<and>
   1 \<in> warned_users (fst (on_message (permissive\<lparr>can_kick := False\<rparr>) member_message 3000000
          thirty_recent_warned)) \<and>
   length (window_of (user_messages (fst (on_message (permissive\<lparr>can_kick := False\<rparr>) member_message
          3000000 thirty_recent_warned))) 1) = 31"
proof -
  have h1: "\<not> author_bot member_message" by code_simp
  have h2: "in_guild member_message" by code_simp
  have h3: "\<not> author_manage_messages member_message" by code_simp
  have h4: "author_id member_message \<in> warned_users thirty_recent_warned" by code_simp
  have h5: "fst (is_spam (author_id member_message) 3000000 thirty_recent_warned)" by code_simp
  have h6: "fst (is_spam 1 3000000 thirty_recent_warned)" by code_simp
  have h7: "can_kick permissive" by code_simp
  have h8: "\<not> can_kick (permissive\<lparr>can_kick := False\<rparr>)" by code_simp
  have h9: "can_timeout (permissive\<lparr>can_kick := False\<rparr>)" by code_simp
  have h10: "\<not> can_kick (permissive\<lparr>can_kick := False, can_timeout := False\<rparr>)" by code_simp
  have h11: "\<not> can_timeout (permissive\<lparr>can_kick := False, can_timeout := False\<rparr>)" by code_simp
  note t = spam_kick_fallback [OF h1 h2 h3 h4 h5 h6 h7 h8 h9 h10 h11]
  have ev:
    "snd (on_message permissive member_message 3000000 thirty_recent_warned)
       = ([Kick 1, Log_Spam 1 ''KICKED'' 31], Done) \<and>
     snd (on_message (permissive\<lparr>can_kick := False\<rparr>) member_message 3000000 thirty_recent_warned)
       = ([Kick 1, Timeout 1 600000000, Log_Spam 1 ''TIMED OUT (10 min)'' 31], Done) \<and>
     snd (on_message (permissive\<lparr>can_kick := False, can_timeout := False\<rparr>) member_message 3000000
            thirty_recent_warned)
       = ([Kick 1, Timeout 1 600000000, Log_Spam 1 ''DETECTED (No Permission)'' 31], Done) \<and>
     1 \<in> warned_users (fst (on_message (permissive\<lparr>can_kick := False\<rparr>) member_message 3000000
            thirty_recent_warned)) \<and>
     length (window_of (user_messages (fst (on_message (permissive\<lparr>can_kick := False\<rparr>) member_message
            3000000 thirty_recent_warned))) 1) = 31"
    by code_simp
  from t h1 h2 h3 h4 h5 h6 h7 h8 h9 h10 h11 ev show ?thesis by blast
qed

text \<open>
  Claim C9 as it was stated fails where the kick is refused: the re-check of the fast sender on a
  platform that refuses the kick times the member out and returns, and the member is still
  in the warned set with all thirty-two timestamps in the window.
\<close>

theorem refused_kick_leaves_state:
  "\<not> can_kick (permissive\<lparr>can_kick := False\<rparr>) \<and>
   snd (fast_sender_recheck (permissive\<lparr>can_kick := False\<rparr>))
     = ([Kick 1, Timeout 1 (timedelta_minutes 10), Log_Spam 1 ''TIMED OUT (10 min)'' 32], Done) \<and>
   1 \<in> warned_users (fst (fast_sender_recheck (permissive\<lparr>can_kick := False\<rparr>))) \<and>
   length (window_of (user_messages (fst (fast_sender_recheck (permissive\<lparr>can_kick := False\<rparr>)))) 1) = 32"
  by code_simp

section \<open>Anti-nuke: what the listeners record\<close>

lemma asyncio_sleep_nuke [simp]:
  "asyncio_sleep anti_nuke_globals n k = Sleeping (timedelta_seconds n) k"
  by (simp add: asyncio_sleep_def anti_nuke_globals_def)

lemma activate_protection_mode_tracking [simp]:
  "action_tracking (fst (activate_protection_mode p s)) = action_tracking s"
  by (simp add: activate_protection_mode_def Let_def)

lemma handle_nuke_attempt_tracking [simp]:
  "action_tracking (fst (handle_nuke_attempt p uid trigger s)) = action_tracking s"
  by (simp add: handle_nuke_attempt_def Let_def case_prod_unfold)

lemma set_expire_actions: "set (expire_actions now q) \<subseteq> set q"
  by (induction q) auto

lemma track_action_actions:
  "set (map action (window_of (action_tracking (snd (track_action uid a now s))) v))
     \<subseteq> set (map action (window_of (action_tracking s) v)) \<union> {a}"
proof (cases "uid \<in> trusted_users s")
  case True
  then show ?thesis by (auto simp: track_action_def)
next
  case False
  show ?thesis
  proof (cases "v = uid")
    case True
    have "action ` set (expire_actions now (window_of (action_tracking s) uid))
            \<subseteq> action ` set (window_of (action_tracking s) uid)"
      using set_expire_actions by (rule image_mono)
    with True False show ?thesis by (auto simp: track_action_def Let_def)
  next
    case other: False
    with False have "window_of (action_tracking (snd (track_action uid a now s))) v
        = window_of (action_tracking s) v"
      by (simp add: track_action_def Let_def window_of_def)
    then show ?thesis by auto
  qed
qed

lemma tracking_subset:
  assumes "a \<in> set listened_actions"
  shows "set (map action (window_of (action_tracking (snd (track_action uid a now s))) v))
           \<subseteq> set (map action (window_of (action_tracking s) v)) \<union> set listened_actions"
proof -
  have "{a} \<subseteq> set listened_actions" using assms by simp
  with track_action_actions [of uid a now s v] show ?thesis by blast
qed

lemma listened_names:
  "''channel_delete'' \<in> set listened_actions" "''channel_create'' \<in> set listened_actions"
  "''role_delete'' \<in> set listened_actions" "''role_create'' \<in> set listened_actions"
  "''member_ban'' \<in> set listened_actions" "''guild_update'' \<in> set listened_actions"
  by (simp_all add: listened_actions_def)

lemma on_guild_channel_delete_tracking:
  "action_tracking (fst (on_guild_channel_delete p c now s)) =
     (case audit_logs p Audit_channel_delete of
        None \<Rightarrow> action_tracking s
      | Some e \<Rightarrow> if target_id e = c
                  then action_tracking (snd (track_action (entry_user e) ''channel_delete'' now s))
                  else action_tracking s)"
  by (simp add: on_guild_channel_delete_def Let_def case_prod_unfold split: option.split)

lemma on_guild_channel_create_tracking:
  "action_tracking (fst (on_guild_channel_create p c now s)) =
     (case audit_logs p Audit_channel_create of
        None \<Rightarrow> action_tracking s
      | Some e \<Rightarrow> if target_id e = c
                  then action_tracking (snd (track_action (entry_user e) ''channel_create'' now s))
                  else action_tracking s)"
  by (simp add: on_guild_channel_create_def Let_def case_prod_unfold split: option.split)

lemma on_guild_role_delete_tracking:
  "action_tracking (fst (on_guild_role_delete p c now s)) =
     (case audit_logs p Audit_role_delete of
        None \<Rightarrow> action_tracking s
      | Some e \<Rightarrow> if target_id e = c
                  then action_tracking (snd (track_action (entry_user e) ''role_delete'' now s))
                  else action_tracking s)"
  by (simp add: on_guild_role_delete_def Let_def case_prod_unfold split: option.split)

lemma on_guild_role_create_tracking:
  "action_tracking (fst (on_guild_role_create p c now s)) =
     (case audit_logs p Audit_role_create of
        None \<Rightarrow> action_tracking s
      | Some e \<Rightarrow> if target_id e = c
                  then action_tracking (snd (track_action (entry_user e) ''role_create'' now s))
                  else action_tracking s)"
  by (simp add: on_guild_role_create_def Let_def case_prod_unfold split: option.split)

lemma on_member_ban_tracking:
  "action_tracking (fst (on_member_ban p c now s)) =
     (case audit_logs p Audit_ban of
        None \<Rightarrow> action_tracking s
      | Some e \<Rightarrow> if target_id e = c
                  then action_tracking (snd (track_action (entry_user e) ''member_ban'' now s))
                  else action_tracking s)"
  by (simp add: on_member_ban_def Let_def case_prod_unfold split: option.split)

lemma on_guild_update_tracking:
  "action_tracking (fst (on_guild_update p before after now s)) =
     (if guild_name before = guild_name after \<and> icon before = icon after
         \<and> verification before = verification after
      then action_tracking s
      else (case audit_logs p Audit_guild_update of
              None \<Rightarrow> action_tracking s
            | Some e \<Rightarrow> action_tracking (snd (track_action (entry_user e) ''guild_update'' now s))))"
  by (simp add: on_guild_update_def Let_def case_prod_unfold split: option.split)

lemma dispatch_actions:
  "set (map action (window_of (action_tracking (fst (anti_nuke_dispatch p ev now s))) v))
     \<subseteq> set (map action (window_of (action_tracking s) v)) \<union> set listened_actions"
proof (cases ev)
  case (Guild_channel_delete c)
  show ?thesis
    unfolding Guild_channel_delete anti_nuke_dispatch_def gateway_event.case
      on_guild_channel_delete_tracking
    using tracking_subset [OF listened_names(1)]
    by (cases "audit_logs p Audit_channel_delete") auto
next
  case (Guild_channel_create c)
  show ?thesis
    unfolding Guild_channel_create anti_nuke_dispatch_def gateway_event.case
      on_guild_channel_create_tracking
    using tracking_subset [OF listened_names(2)]
    by (cases "audit_logs p Audit_channel_create") auto
next
  case (Guild_role_delete r)
  show ?thesis
    unfolding Guild_role_delete anti_nuke_dispatch_def gateway_event.case
      on_guild_role_delete_tracking
    using tracking_subset [OF listened_names(3)]
    by (cases "audit_logs p Audit_role_delete") auto
next
  case (Guild_role_create r)
  show ?thesis
    unfolding Guild_role_create anti_nuke_dispatch_def gateway_event.case
      on_guild_role_create_tracking
    using tracking_subset [OF listened_names(4)]
    by (cases "audit_logs p Audit_role_create") auto
next
  case (Member_ban u)
  show ?thesis
    unfolding Member_ban anti_nuke_dispatch_def gateway_event.case on_member_ban_tracking
    using tracking_subset [OF listened_names(5)]
    by (cases "audit_logs p Audit_ban") auto
next
  case (Guild_update before after)
  show ?thesis
    unfolding Guild_update anti_nuke_dispatch_def gateway_event.case on_guild_update_tracking
    using tracking_subset [OF listened_names(6)]
    by (cases "audit_logs p Audit_guild_update") auto
next
  case (Member_remove u)
  show ?thesis by (simp add: Member_remove anti_nuke_dispatch_def)
next
  case (Webhooks_update c)
  show ?thesis by (simp add: Webhooks_update anti_nuke_dispatch_def)
qed

text \<open>
  Claim C4. \<^verbatim>\<open>destructive_actions\<close> names eight kinds of action, and the listeners
  pass six of these names to \<^verbatim>\<open>track_action\<close>. The two others, \<^verbatim>\<open>member_kick\<close> and
  \<^verbatim>\<open>webhook_create\<close>, are passed by no listener: the events that a kick and the creation
  of a webhook raise run no code of the cog and leave its state as it was, whatever the
  audit log says, and no event adds an action name outside the six to any window.
\<close>

theorem kick_and_webhook_creation_not_tracked:
  "set destructive_actions = set listened_actions \<union> {''member_kick'', ''webhook_create''} \<and>
   ''member_kick'' \<notin> set listened_actions \<and>
   ''webhook_create'' \<notin> set listened_actions \<and>
   anti_nuke_dispatch p (Member_remove u) now s = (s, [], Done) \<and>
   anti_nuke_dispatch p (Webhooks_update c) now s = (s, [], Done) \<and>
   set (map action (window_of (action_tracking (fst (anti_nuke_dispatch p ev now s))) v))
     \<subseteq> set (map action (window_of (action_tracking s) v)) \<union> set listened_actions"
proof -
  have "set destructive_actions = set listened_actions \<union> {''member_kick'', ''webhook_create''}"
    by (auto simp: destructive_actions_def listened_actions_def)
  moreover have "''member_kick'' \<notin> set listened_actions" "''webhook_create'' \<notin> set listened_actions"
    by (simp_all add: listened_actions_def)
  moreover have "anti_nuke_dispatch p (Member_remove u) now s = (s, [], Done)"
    "anti_nuke_dispatch p (Webhooks_update c) now s = (s, [], Done)"
    by (simp_all add: anti_nuke_dispatch_def)
  ultimately show ?thesis using dispatch_actions by blast
qed

section \<open>Anti-nuke: the threshold and the handler\<close>

lemma expire_actions_stops:
  assumes "\<not> now - time a > timedelta_seconds NUKE_TIME_WINDOW"
  shows "\<exists>pre'. expire_actions now (pre @ a # rest) = pre' @ a # rest"
proof (induction pre)
  case Nil
  from assms have "expire_actions now (a # rest) = [] @ a # rest" by simp
  then show ?case by (metis append_Nil)
next
  case (Cons x pre)
  show ?case
  proof (cases "now - time x > timedelta_seconds NUKE_TIME_WINDOW")
    case True
    with Cons.IH show ?thesis by simp
  next
    case False
    then have "expire_actions now ((x # pre) @ a # rest) = (x # pre) @ a # rest" by simp
    then show ?thesis by blast
  qed
qed

lemma sorted_le_last: "sorted xs \<Longrightarrow> x \<in> set xs \<Longrightarrow> x \<le> (last xs :: int)"
  by (induction xs) auto

lemma track_action_flag:
  "uid \<notin> trusted_users s \<Longrightarrow>
   fst (track_action uid a now s)
     = (NUKE_ACTION_LIMIT < length (window_of (action_tracking (snd (track_action uid a now s))) uid))"
  by (simp add: track_action_def Let_def)

lemma track_actions_last_flag:
  assumes "calls \<noteq> []" and "uid \<notin> trusted_users s"
  shows "last (fst (track_actions uid calls s))
     = (NUKE_ACTION_LIMIT < length (window_of (action_tracking (snd (track_actions uid calls s))) uid))"
  using assms
proof (induction calls rule: rev_nonempty_induct)
  case (single c)
  obtain a t where c: "c = (a, t)" by (cases c)
  show ?case using track_action_flag [OF single, of a t] by (simp add: c case_prod_unfold Let_def)
next
  case (snoc c calls)
  obtain a t where c: "c = (a, t)" by (cases c)
  have "uid \<notin> trusted_users (snd (track_actions uid calls s))" using snoc.prems by simp
  from track_action_flag [OF this, of a t] show ?case
    by (simp add: track_actions_append c case_prod_unfold Let_def)
qed

text \<open>
  Once an entry \<open>a1\<close> is in the window, calls that come no later than the window length
  after it leave it and everything behind it in place.
\<close>

lemma track_actions_keep:
  assumes "uid \<notin> trusted_users s"
      and "window_of (action_tracking s) uid = pre @ a1 # kept"
      and "\<forall>c \<in> set calls. snd c - time a1 \<le> timedelta_seconds NUKE_TIME_WINDOW"
  shows "\<exists>pre'. window_of (action_tracking (snd (track_actions uid calls s))) uid
           = pre' @ a1 # kept @ map (\<lambda>(a, t). \<lparr>time = t, action = a\<rparr>) calls"
  using assms
proof (induction calls arbitrary: s pre kept)
  case Nil
  then show ?case by simp
next
  case (Cons c calls)
  obtain a t where c: "c = (a, t)" by (cases c)
  from Cons.prems(3) have "\<not> t - time a1 > timedelta_seconds NUKE_TIME_WINDOW" by (simp add: c)
  from expire_actions_stops [OF this, of pre kept]
  obtain pre' where e: "expire_actions t (pre @ a1 # kept) = pre' @ a1 # kept" by blast
  let ?s = "snd (track_action uid a t s)"
  have w: "window_of (action_tracking ?s) uid = pre' @ a1 # (kept @ [\<lparr>time = t, action = a\<rparr>])"
    using Cons.prems(1,2) e by (simp add: track_action_def Let_def window_of_def)
  have u: "uid \<notin> trusted_users ?s" using Cons.prems(1) by simp
  from Cons.prems(3) have r: "\<forall>c \<in> set calls. snd c - time a1 \<le> timedelta_seconds NUKE_TIME_WINDOW"
    by simp
  from Cons.IH [OF u w r] show ?case by (simp add: c case_prod_unfold Let_def)
qed

lemma track_actions_count:
  assumes "uid \<notin> trusted_users s" and "calls \<noteq> []" and "sorted (map snd calls)"
      and "snd (last calls) - snd (hd calls) \<le> timedelta_seconds NUKE_TIME_WINDOW"
  shows "length calls \<le> length (window_of (action_tracking (snd (track_actions uid calls s))) uid)"
proof -
  obtain a t rest where calls: "calls = (a, t) # rest" using assms(2) by (cases calls) auto
  let ?s = "snd (track_action uid a t s)"
  let ?a1 = "\<lparr>time = t, action = a\<rparr>"
  have w: "window_of (action_tracking ?s) uid
             = expire_actions t (window_of (action_tracking s) uid) @ ?a1 # []"
    using assms(1) by (simp add: track_action_def Let_def)
  have u: "uid \<notin> trusted_users ?s" using assms(1) by simp
  have r: "\<forall>c \<in> set rest. snd c - time ?a1 \<le> timedelta_seconds NUKE_TIME_WINDOW"
  proof
    fix c assume c: "c \<in> set rest"
    then have "rest \<noteq> []" by auto
    then have l: "last calls = last rest" by (simp add: calls)
    from assms(3) have "sorted (map snd rest)" by (simp add: calls)
    moreover from c have "snd c \<in> set (map snd rest)" by simp
    ultimately have "snd c \<le> last (map snd rest)" by (rule sorted_le_last)
    then have "snd c \<le> snd (last rest)" using \<open>rest \<noteq> []\<close> by (simp add: last_map)
    with assms(4) show "snd c - time ?a1 \<le> timedelta_seconds NUKE_TIME_WINDOW"
      using \<open>rest \<noteq> []\<close> by (simp add: calls)
  qed
  from track_actions_keep [OF u w r]
  obtain pre' where "window_of (action_tracking (snd (track_actions uid rest ?s))) uid
      = pre' @ ?a1 # [] @ map (\<lambda>(a, t). \<lparr>time = t, action = a\<rparr>) rest" by blast
  then show ?thesis by (simp add: calls case_prod_unfold Let_def)
qed

lemma handle_nuke_attempt_permitted:
  assumes "\<not> protected_mode s" and "get_member p uid = Some member_roles"
      and "can_remove_roles p" and "can_timeout p"
  shows "handle_nuke_attempt p uid trigger s =
     (s\<lparr>protected_mode := True\<rparr>,
      (if filter is_dangerous member_roles \<noteq> []
       then [Remove_Roles uid (filter is_dangerous member_roles)] else [])
      @ [Timeout uid (timedelta_hours 24)]
      @ log_nuke_action p (Some uid) ''NUKE ATTEMPT BLOCKED''
      @ log_nuke_action p None ''PROTECTION MODE ACTIVATED''
      @ (if log_channel p then [Send_Alert] else []),
      Sleeping (timedelta_seconds 3600) Resume_activate_protection_mode)"
  using assms
  by (simp add: handle_nuke_attempt_def activate_protection_mode_def Let_def except_Exception_def)

text \<open>
  Claim C6, as amended. Six channel deletions by one untrusted user, in chronological
  order and the last not more than sixty seconds after the first, make the sixth call of
  \<^verbatim>\<open>track_action\<close> return true, whatever the user's window held before. When the audit
  log names the user for the deleted channel, the listener hands a true verdict to
  \<^verbatim>\<open>handle_nuke_attempt\<close>. For a user who is a member of the guild, on a platform that
  permits the removal of roles and the timeout, and with the protection mode off, the
  handler removes every role of the member that grants a dangerous permission (skipping
  the call when there is none), applies a timeout of twenty-four hours, logs, and turns
  the protection mode on, where it stays while the coroutine sleeps. On a platform that
  refuses the removal of the roles the handler attempts that call alone, and on one that
  refuses the timeout it attempts both; each time it logs the missing permission, returns,
  and leaves the state, the protection mode with it, as it was.
\<close>

theorem nuke_threshold:
  assumes "uid \<notin> trusted_users s"
      and "length ts = 6" and "sorted ts"
      and "last ts - hd ts \<le> timedelta_seconds NUKE_TIME_WINDOW"
      and "audit_logs p Audit_channel_delete = Some e" and "target_id e = c" and "entry_user e = uid"
      and "fst (track_action uid ''channel_delete'' now s1)"
      and "\<not> protected_mode s2" and "get_member p uid = Some member_roles"
      and "can_remove_roles p" and "can_timeout p"
      and "get_member p2 uid = Some member_roles" and "filter is_dangerous member_roles \<noteq> []"
      and "\<not> can_remove_roles p2"
      and "get_member p3 uid = Some member_roles" and "can_remove_roles p3" and "\<not> can_timeout p3"
  shows
    "last (fst (track_actions uid (map (Pair ''channel_delete'') ts) s)) \<and>
     NUKE_ACTION_LIMIT
       < length (window_of (action_tracking (snd (track_actions uid (map (Pair ''channel_delete'') ts) s))) uid) \<and>
     on_guild_channel_delete p c now s1
       = handle_nuke_attempt p uid ''Mass Channel Deletion'' (snd (track_action uid ''channel_delete'' now s1)) \<and>
     handle_nuke_attempt p uid trigger s2 =
       (s2\<lparr>protected_mode := True\<rparr>,
        (if filter is_dangerous member_roles \<noteq> []
         then [Remove_Roles uid (filter is_dangerous member_roles)] else [])
        @ [Timeout uid (timedelta_hours 24)]
        @ log_nuke_action p (Some uid) ''NUKE ATTEMPT BLOCKED''
        @ log_nuke_action p None ''PROTECTION MODE ACTIVATED''
        @ (if log_channel p then [Send_Alert] else []),
        Sleeping (timedelta_seconds 3600) Resume_activate_protection_mode) \<and>
     protected_mode (fst (handle_nuke_attempt p uid trigger s2)) \<and>
     handle_nuke_attempt p2 uid trigger s2 =
       (s2,
        [Remove_Roles uid (filter is_dangerous member_roles)]
        @ log_nuke_action p2 (Some uid) ''NUKE ATTEMPT DETECTED (No Permission)'',
        Done) \<and>
     handle_nuke_attempt p3 uid trigger s2 =
       (s2,
        (if filter is_dangerous member_roles \<noteq> []
         then [Remove_Roles uid (filter is_dangerous member_roles)] else [])
        @ [Timeout uid (timedelta_hours 24)]
        @ log_nuke_action p3 (Some uid) ''NUKE ATTEMPT DETECTED (No Permission)'',
        Done)"
proof -
  let ?calls = "map (Pair ''channel_delete'') ts"
  from assms(2) have ne: "?calls \<noteq> []" by auto
  then have ts: "ts \<noteq> []" by simp
  have m: "map snd ?calls = ts" by (simp add: comp_def)
  have hl: "snd (last ?calls) = last ts" "snd (hd ?calls) = hd ts"
    using ts by (simp_all add: last_map hd_map)
  have "length ?calls \<le> length (window_of (action_tracking (snd (track_actions uid ?calls s))) uid)"
  proof (rule track_actions_count [OF assms(1) ne])
    show "sorted (map snd ?calls)" unfolding m by (rule assms(3))
    show "snd (last ?calls) - snd (hd ?calls) \<le> timedelta_seconds NUKE_TIME_WINDOW"
      unfolding hl by (rule assms(4))
  qed
  then have big: "NUKE_ACTION_LIMIT
      < length (window_of (action_tracking (snd (track_actions uid ?calls s))) uid)"
    using assms(2) by (simp add: NUKE_ACTION_LIMIT_def)
  then have flag: "last (fst (track_actions uid ?calls s))"
    using track_actions_last_flag [OF ne assms(1)] by simp
  have lis: "on_guild_channel_delete p c now s1
       = handle_nuke_attempt p uid ''Mass Channel Deletion'' (snd (track_action uid ''channel_delete'' now s1))"
    using assms(5-8) by (simp add: on_guild_channel_delete_def Let_def case_prod_unfold)
  note h = handle_nuke_attempt_permitted [OF assms(9-12), of trigger]
  have pm: "protected_mode (fst (handle_nuke_attempt p uid trigger s2))" by (simp add: h)
  have r2: "handle_nuke_attempt p2 uid trigger s2 =
       (s2,
        [Remove_Roles uid (filter is_dangerous member_roles)]
        @ log_nuke_action p2 (Some uid) ''NUKE ATTEMPT DETECTED (No Permission)'',
        Done)"
    using assms(13-15) by (simp add: handle_nuke_attempt_def Let_def)
  have r3: "handle_nuke_attempt p3 uid trigger s2 =
       (s2,
        (if filter is_dangerous member_roles \<noteq> []
         then [Remove_Roles uid (filter is_dangerous member_roles)] else [])
        @ [Timeout uid (timedelta_hours 24)]
        @ log_nuke_action p3 (Some uid) ''NUKE ATTEMPT DETECTED (No Permission)'',
        Done)"
    using assms(16-18) by (simp add: handle_nuke_attempt_def Let_def)
  from flag big lis h pm r2 r3 show ?thesis by blast
qed

theorem nuke_threshold_witness:
  "7 \<notin> trusted_users nuke_init \<and>
   length (map snd six_deletions) = 6 \<and> sorted (map snd six_deletions) \<and>
   last (map snd six_deletions) - hd (map snd six_deletions) \<le> timedelta_seconds NUKE_TIME_WINDOW \<and>
   audit_logs nuke_platform Audit_channel_delete = Some \<lparr>target_id = 100, entry_user = 7\<rparr> \<and>
   target_id \<lparr>target_id = 100, entry_user = 7\<rparr> = 100 \<and>
   entry_user \<lparr>target_id = 100, entry_user = 7\<rparr> = 7 \<and>
   fst (track_action 7 ''channel_delete'' (timedelta_seconds 5)
         (snd (track_actions 7 (take 5 six_deletions) nuke_init))) \<and>
   \<not> protected_mode (snd (track_actions 7 six_deletions nuke_init)) \<and>
   get_member nuke_platform 7 = Some [plain_role, admin_role] \<and>
   can_remove_roles nuke_platform \<and> can_timeout nuke_platform \<and>
   get_member (nuke_platform\<lparr>can_remove_roles := False\<rparr>) 7 = Some [plain_role, admin_role] \<and>
   filter is_dangerous [plain_role, admin_role] \<noteq> [] \<and>
   \<not> can_remove_roles (nuke_platform\<lparr>can_remove_roles := False\<rparr>) \<and>
   get_member (nuke_platform\<lparr>can_timeout := False\<rparr>) 7 = Some [plain_role, admin_role] \<and>
   can_remove_roles (nuke_platform\<lparr>can_timeout := False\<rparr>) \<and>
   \<not> can_timeout (nuke_platform\<lparr>can_timeout := False\<rparr>) \<and>
   last (fst (track_actions 7 (map (Pair ''channel_delete'') (map snd six_deletions)) nuke_init)) \<and>
   fst (track_actions 7 six_deletions nuke_init) = [False, False, False, False, False, True] \<and>
   snd (sixth_deletion nuke_platform)
     = ([Remove_Roles 7 [admin_role], Timeout 7 86400000000,
         Log_Nuke (Some 7) ''NUKE ATTEMPT BLOCKED'',
         Log_Nuke None ''PROTECTION MODE ACTIVATED'', Send_Alert],
        Sleeping 3600000000 Resume_activate_protection_mode) \<and>
   protected_mode (fst (sixth_deletion nuke_platform))"
proof -
  have h1: "7 \<notin> trusted_users nuke_init" by code_simp
  have h2: "length (map snd six_deletions) = 6" by code_simp
  have h3: "sorted (map snd six_deletions)" by code_simp
  have h4: "last (map snd six_deletions) - hd (map snd six_deletions) \<le> timedelta_seconds NUKE_TIME_WINDOW"
    by code_simp
  have h5: "audit_logs nuke_platform Audit_channel_delete = Some \<lparr>target_id = 100, entry_user = 7\<rparr>"
    by code_simp
  have h6: "target_id \<lparr>target_id = 100, entry_user = 7\<rparr> = 100" by code_simp
  have h7: "entry_user \<lparr>target_id = 100, entry_user = 7\<rparr> = 7" by code_simp
  have h8: "fst (track_action 7 ''channel_delete'' (timedelta_seconds 5)
         (snd (track_actions 7 (take 5 six_deletions) nuke_init)))" by code_simp
  have h9: "\<not> protected_mode (snd (track_actions 7 six_deletions nuke_init))" by code_simp
  have h10: "get_member nuke_platform 7 = Some [plain_role, admin_role]" by code_simp
  have h11: "can_remove_roles nuke_platform" by code_simp
  have h12: "can_timeout nuke_platform" by code_simp
  have h13: "get_member (nuke_platform\<lparr>can_remove_roles := False\<rparr>) 7 = Some [plain_role, admin_role]"
    by code_simp
  have h14: "filter is_dangerous [plain_role, admin_role] \<noteq> []" by code_simp
  have h15: "\<not> can_remove_roles (nuke_platform\<lparr>can_remove_roles := False\<rparr>)" by code_simp
  have h16: "get_member (nuke_platform\<lparr>can_timeout := False\<rparr>) 7 = Some [plain_role, admin_role]"
    by code_simp
  have h17: "can_remove_roles (nuke_platform\<lparr>can_timeout := False\<rparr>)" by code_simp
  have h18: "\<not> can_timeout (nuke_platform\<lparr>can_timeout := False\<rparr>)" by code_simp
  note t = nuke_threshold [OF h1 h2 h3 h4 h5 h6 h7 h8 h9 h10 h11 h12 h13 h14 h15 h16 h17 h18,
      of "''Mass Channel Deletion''"]
  have ev:
    "fst (track_actions 7 six_deletions nuke_init) = [False, False, False, False, False, True] \<and>
     snd (sixth_deletion nuke_platform)
       = ([Remove_Roles 7 [admin_role], Timeout 7 86400000000,
           Log_Nuke (Some 7) ''NUKE ATTEMPT BLOCKED'',
           Log_Nuke None ''PROTECTION MODE ACTIVATED'', Send_Alert],
          Sleeping 3600000000 Resume_activate_protection_mode) \<and>
     protected_mode (fst (sixth_deletion nuke_platform))"
    by code_simp
  from t h1 h2 h3 h4 h5 h6 h7 h8 h9 h10 h11 h12 h13 h14 h15 h16 h17 h18 ev show ?thesis by blast
qed

text \<open>
  Claim C6 as it was stated fails on a platform that refuses the removal of roles: the sixth deletion
  is detected, the removal of the administrator role is attempted and refused, no timeout
  is attempted, and the protection mode stays off. Where only the timeout is refused, both
  calls are attempted and the protection mode stays off as well.
\<close>

theorem refused_remediation_no_protection_mode:
  "7 \<notin> trusted_users nuke_init \<and>
   fst (track_actions 7 six_deletions nuke_init) = [False, False, False, False, False, True] \<and>
   snd (sixth_deletion (nuke_platform\<lparr>can_remove_roles := False\<rparr>))
     = ([Remove_Roles 7 [admin_role], Log_Nuke (Some 7) ''NUKE ATTEMPT DETECTED (No Permission)''], Done) \<and>
   \<not> protected_mode (fst (sixth_deletion (nuke_platform\<lparr>can_remove_roles := False\<rparr>))) \<and>
   snd (sixth_deletion (nuke_platform\<lparr>can_timeout := False\<rparr>))
     = ([Remove_Roles 7 [admin_role], Timeout 7 (timedelta_hours 24),
         Log_Nuke (Some 7) ''NUKE ATTEMPT DETECTED (No Permission)''], Done) \<and>
   \<not> protected_mode (fst (sixth_deletion (nuke_platform\<lparr>can_timeout := False\<rparr>)))"
  by code_simp

section \<open>The protection modes\<close>

lemma run_handler_cog [simp]: "cog (fst (run_handler h now L)) = fst (h (cog L))"
  by (simp add: run_handler_def Let_def case_prod_unfold)

lemma run_handler_sleeping [simp]:
  "sleeping (fst (run_handler h now L)) = sleeping L @ suspend now (snd (snd (h (cog L))))"
  by (simp add: run_handler_def Let_def case_prod_unfold)

lemma run_handler_calls [simp]: "snd (run_handler h now L) = fst (snd (h (cog L)))"
  by (simp add: run_handler_def Let_def case_prod_unfold)

lemma asyncio_sleep_raid [simp]:
  "asyncio_sleep anti_raid_globals n k = Raised (NameError ''asyncio'')"
  by (simp add: asyncio_sleep_def anti_raid_globals_def)

lemma activate_raid_protection_normal:
  "\<not> raid_protection_active s \<Longrightarrow>
   activate_raid_protection p k s =
     (s\<lparr>raid_protection_active := True\<rparr>,
      [Edit_Verification_Level Level_high] @ log_raid_action p ''RAID PROTECTION ACTIVATED''
      @ (if log_channel p then [Send_Alert] else []),
      Raised (NameError ''asyncio''))"
  by (simp add: activate_raid_protection_def Let_def)

lemma activate_raid_protection_active:
  "raid_protection_active s \<Longrightarrow> activate_raid_protection p k s = (s, [], Done)"
  by (simp add: activate_raid_protection_def)

lemma activate_protection_mode_normal:
  "\<not> protected_mode s \<Longrightarrow>
   activate_protection_mode p s =
     (s\<lparr>protected_mode := True\<rparr>,
      log_nuke_action p None ''PROTECTION MODE ACTIVATED'' @ (if log_channel p then [Send_Alert] else []),
      Sleeping (timedelta_seconds 3600) Resume_activate_protection_mode)"
  by (simp add: activate_protection_mode_def Let_def)

lemma activate_protection_mode_active:
  "protected_mode s \<Longrightarrow> activate_protection_mode p s = (s, [], Done)"
  by (simp add: activate_protection_mode_def)

text \<open>
  The anti-nuke protection mode does expire: from a loop with nothing parked, the
  activation at \<open>t0\<close> parks one coroutine with wake-up time \<open>t0 + 3600 s\<close>; the mode is on
  at every time before that, and off once the loop has reached it, with no event in
  between.
\<close>

lemma nuke_protection_expires:
  assumes "\<not> protected_mode (cog L)" and "sleeping L = []"
      and "t < t0 + timedelta_seconds 3600" and "t0 + timedelta_seconds 3600 \<le> t'"
  shows "sleeping (fst (run_handler (activate_protection_mode p) t0 L))
           = [(t0 + timedelta_seconds 3600, Resume_activate_protection_mode)]"
    and "protected_mode (cog (fst (run_handler (activate_protection_mode p) t0 L)))"
    and "protected_mode (cog (fst (advance (nuke_resume_at p) t (fst (run_handler (activate_protection_mode p) t0 L)))))"
    and "\<not> protected_mode (cog (fst (advance (nuke_resume_at p) t' (fst (run_handler (activate_protection_mode p) t0 L)))))"
    and "sleeping (fst (advance (nuke_resume_at p) t' (fst (run_handler (activate_protection_mode p) t0 L)))) = []"
  using assms
  by (simp_all add: activate_protection_mode_normal suspend_def advance_def
      nuke_resume_at_def activate_protection_mode_resume_def)

text \<open>
  In the anti-raid cog no coroutine is ever parked: the only sleep of the module raises.
  A join handler returns or raises, and neither it nor the passing of time clears the flag.
\<close>

lemma is_suspicious_account_aware:
  "created_at m = Aware c \<Longrightarrow> is_suspicious_account m utcnow = Inl TypeError"
  by (simp add: is_suspicious_account_def naive_minus_def)

lemma is_suspicious_account_exn:
  "is_suspicious_account m utcnow = Inl e \<Longrightarrow> e = TypeError"
  by (cases "created_at m")
     (simp_all add: is_suspicious_account_def naive_minus_def Let_def split: if_splits)

lemma on_member_join_raises:
  "is_suspicious_account m utcnow = Inl e \<Longrightarrow>
   on_member_join p m now utcnow now' s = (s\<lparr>join_tracking := join_tracking s @ [now]\<rparr>, [], Raised e)"
  by (simp add: on_member_join_def)

lemma on_member_join_classified:
  assumes "is_suspicious_account m utcnow = Inr (v, r)"
  shows "on_member_join p m now utcnow now' s =
     (let s1 = s\<lparr>join_tracking := join_tracking s @ [now]\<rparr>;
          s2 = (if log_channel p \<and> v
                then s1\<lparr>suspicious_users := insert (member_id m) (suspicious_users s1)\<rparr> else s1);
          c1 = (if log_channel p then [Log_Join (member_id m) v] else []);
          s3 = snd (detect_raid now' s2);
          a = (if fst (detect_raid now' s2)
               then activate_raid_protection p (Resume_activate_raid_protection (member_id m) v) s3
               else (s3, [], Done))
      in case snd (snd a) of
           Done \<Rightarrow> (fst a, c1 @ fst (snd a) @ handle_suspicious p (member_id m) v (fst a), Done)
         | Raised e \<Rightarrow> (fst a, c1 @ fst (snd a), Raised e)
         | Sleeping d k \<Rightarrow> (fst a, c1 @ fst (snd a), Sleeping d k))"
  by (simp add: on_member_join_def assms Let_def case_prod_unfold split: status.split)

lemma detect_raid_active [simp]:
  "raid_protection_active (snd (detect_raid n x)) = raid_protection_active x"
  by (simp add: detect_raid_def Let_def)

lemma on_member_join_status:
  "snd (snd (on_member_join p m now utcnow now' s)) = Done \<or>
   snd (snd (on_member_join p m now utcnow now' s)) = Raised (NameError ''asyncio'') \<or>
   snd (snd (on_member_join p m now utcnow now' s)) = Raised TypeError"
proof (cases "is_suspicious_account m utcnow")
  case (Inl e)
  with is_suspicious_account_exn [OF Inl] show ?thesis by (simp add: on_member_join_raises)
next
  case (Inr vr)
  obtain v r where vr: "vr = (v, r)" by (cases vr)
  show ?thesis
    by (simp add: on_member_join_classified [OF Inr [unfolded vr]] Let_def
        activate_raid_protection_def)
qed

lemma on_member_join_stays_active:
  assumes "raid_protection_active s"
  shows "raid_protection_active (fst (on_member_join p m now utcnow now' s))"
proof (cases "is_suspicious_account m utcnow")
  case (Inl e)
  with assms show ?thesis by (simp add: on_member_join_raises)
next
  case (Inr vr)
  obtain v r where vr: "vr = (v, r)" by (cases vr)
  show ?thesis
    using assms
    by (simp add: on_member_join_classified [OF Inr [unfolded vr]] Let_def
        activate_raid_protection_def)
qed

lemma joins_stay_active:
  "raid_protection_active (cog L) \<Longrightarrow> sleeping L = [] \<Longrightarrow>
   raid_protection_active (cog (fst (joins p utcnow js L))) \<and> sleeping (fst (joins p utcnow js L)) = []"
proof (induction js arbitrary: L)
  case Nil
  then show ?case by simp
next
  case (Cons j js)
  obtain m t where j: "j = (m, t)" by (cases j)
  let ?L = "fst (run_handler (on_member_join p m t utcnow t) t L)"
  have a: "raid_protection_active (cog ?L)"
    using Cons.prems(1) on_member_join_stays_active [of "cog L" p m t utcnow t]
    by simp
  have b: "sleeping ?L = []"
    using Cons.prems(2) on_member_join_status [of p m t utcnow t "cog L"]
    by (auto simp: suspend_def)
  from Cons.IH [OF a b] show ?case by (simp add: j case_prod_unfold Let_def)
qed

lemma raidprotection_on_normal:
  "\<not> raid_protection_active s \<Longrightarrow>
   raid_protection_command p (Some ''on'') s =
     (s\<lparr>raid_protection_active := True\<rparr>,
      [Edit_Verification_Level Level_high] @ log_raid_action p ''RAID PROTECTION ACTIVATED''
      @ (if log_channel p then [Send_Alert] else []),
      Raised (NameError ''asyncio''))"
proof -
  have "map char_lower ''on'' = ''on''" by code_simp
  then show "\<not> raid_protection_active s \<Longrightarrow> ?thesis"
    by (simp add: raid_protection_command_def activate_raid_protection_normal)
qed

text \<open>
  Claim C2 fails for the raid detector. \<^verbatim>\<open>anti_raid.py\<close> calls \<^verbatim>\<open>asyncio.sleep\<close> without
  importing \<^verbatim>\<open>asyncio\<close>. An activation from Normal, whoever awaits it, sets the flag,
  raises the verification level, logs and alerts, and then ends with \<^verbatim>\<open>NameError\<close> at
  line 126: nothing is parked and the deactivation of line 127 is never reached. So it is
  for the command \<^verbatim>\<open>raidprotection on\<close>, which ends before its reply. From the loop that
  the activation leaves, at every later time \<open>t\<close> and with no further event, the
  protection is still active and the verification level has not been set back.
\<close>

theorem raid_protection_never_expires:
  "activate_raid_protection p k (s\<lparr>raid_protection_active := False\<rparr>) =
     (s\<lparr>raid_protection_active := True\<rparr>,
      [Edit_Verification_Level Level_high] @ log_raid_action p ''RAID PROTECTION ACTIVATED''
      @ (if log_channel p then [Send_Alert] else []),
      Raised (NameError ''asyncio'')) \<and>
   raid_protection_command p (Some ''on'') (s\<lparr>raid_protection_active := False\<rparr>) =
     (s\<lparr>raid_protection_active := True\<rparr>,
      [Edit_Verification_Level Level_high] @ log_raid_action p ''RAID PROTECTION ACTIVATED''
      @ (if log_channel p then [Send_Alert] else []),
      Raised (NameError ''asyncio'')) \<and>
   fst (run_handler (activate_raid_protection p k) t0
          \<lparr>cog = s\<lparr>raid_protection_active := False\<rparr>, sleeping = []\<rparr>)
     = \<lparr>cog = s\<lparr>raid_protection_active := True\<rparr>, sleeping = []\<rparr> \<and>
   fst (run_handler (raid_protection_command p (Some ''on'')) t0
          \<lparr>cog = s\<lparr>raid_protection_active := False\<rparr>, sleeping = []\<rparr>)
     = \<lparr>cog = s\<lparr>raid_protection_active := True\<rparr>, sleeping = []\<rparr> \<and>
   advance (raid_resume_at p) t \<lparr>cog = s\<lparr>raid_protection_active := True\<rparr>, sleeping = []\<rparr>
     = (\<lparr>cog = s\<lparr>raid_protection_active := True\<rparr>, sleeping = []\<rparr>, []) \<and>
   snd manual_activation
     = [Edit_Verification_Level Level_high, Log_Raid ''RAID PROTECTION ACTIVATED'', Send_Alert] \<and>
   sleeping (fst manual_activation) = [] \<and>
   raid_protection_active (cog (fst (advance (raid_resume_at permissive) t (fst manual_activation)))) \<and>
   Edit_Verification_Level Level_medium
     \<notin> set (snd (advance (raid_resume_at permissive) t (fst manual_activation)))"
proof -
  have n: "\<not> raid_protection_active (s\<lparr>raid_protection_active := False\<rparr>)" by simp
  note a = activate_raid_protection_normal [OF n, of p k, simplified]
  note c = raidprotection_on_normal [OF n, of p, simplified]
  have ra: "fst (run_handler (activate_raid_protection p k) t0
          \<lparr>cog = s\<lparr>raid_protection_active := False\<rparr>, sleeping = []\<rparr>)
     = \<lparr>cog = s\<lparr>raid_protection_active := True\<rparr>, sleeping = []\<rparr>"
    by (simp add: run_handler_def a suspend_def)
  have rc: "fst (run_handler (raid_protection_command p (Some ''on'')) t0
          \<lparr>cog = s\<lparr>raid_protection_active := False\<rparr>, sleeping = []\<rparr>)
     = \<lparr>cog = s\<lparr>raid_protection_active := True\<rparr>, sleeping = []\<rparr>"
    by (simp add: run_handler_def c suspend_def)
  have adv: "advance (raid_resume_at p) t \<lparr>cog = s\<lparr>raid_protection_active := True\<rparr>, sleeping = []\<rparr>
     = (\<lparr>cog = s\<lparr>raid_protection_active := True\<rparr>, sleeping = []\<rparr>, [])"
    by (simp add: advance_def)
  have m: "snd manual_activation
        = [Edit_Verification_Level Level_high, Log_Raid ''RAID PROTECTION ACTIVATED'', Send_Alert] \<and>
      sleeping (fst manual_activation) = [] \<and>
      raid_protection_active (cog (fst manual_activation))"
    by code_simp
  then have ma: "advance (raid_resume_at permissive) t (fst manual_activation) = (fst manual_activation, [])"
    by (simp add: advance_def)
  from a c ra rc adv m ma show ?thesis by simp
qed

text \<open>
  Claim C8. In both detectors the activation first tests the flag and returns when it is
  set, and sets the flag before its first await. An activation while the mode is Enhanced
  therefore changes nothing: no call is made on the platform, no coroutine is parked, the
  state is the same. Of two activations in a row from Normal, the first makes the
  transition with its side effects - one alert when there is a log channel, for the raid
  detector one change of the verification level, for the nuke detector one parked
  expiry - and the second adds nothing to them.
\<close>

theorem activation_idempotent:
  assumes "protected_mode (cog N)" and "raid_protection_active (cog R)"
      and "\<not> protected_mode (cog N0)" and "\<not> raid_protection_active (cog R0)"
  shows
    "run_handler (activate_protection_mode p) now N = (N, []) \<and>
     run_handler (activate_raid_protection p k) now R = (R, []) \<and>
     protected_mode (cog (fst (run_handler (activate_protection_mode p) t0 N0))) \<and>
     run_handler (activate_protection_mode p) t1 (fst (run_handler (activate_protection_mode p) t0 N0))
       = (fst (run_handler (activate_protection_mode p) t0 N0), []) \<and>
     count_list (snd (run_handler (activate_protection_mode p) t0 N0)
                 @ snd (run_handler (activate_protection_mode p) t1
                          (fst (run_handler (activate_protection_mode p) t0 N0)))) Send_Alert
       = (if log_channel p then 1 else 0) \<and>
     sleeping (fst (run_handler (activate_protection_mode p) t1
                      (fst (run_handler (activate_protection_mode p) t0 N0))))
       = sleeping N0 @ [(t0 + timedelta_seconds 3600, Resume_activate_protection_mode)] \<and>
     raid_protection_active (cog (fst (run_handler (activate_raid_protection p k) t0 R0))) \<and>
     run_handler (activate_raid_protection p k) t1 (fst (run_handler (activate_raid_protection p k) t0 R0))
       = (fst (run_handler (activate_raid_protection p k) t0 R0), []) \<and>
     count_list (snd (run_handler (activate_raid_protection p k) t0 R0)
                 @ snd (run_handler (activate_raid_protection p k) t1
                          (fst (run_handler (activate_raid_protection p k) t0 R0)))) Send_Alert
       = (if log_channel p then 1 else 0) \<and>
     count_list (snd (run_handler (activate_raid_protection p k) t0 R0)
                 @ snd (run_handler (activate_raid_protection p k) t1
                          (fst (run_handler (activate_raid_protection p k) t0 R0))))
         (Edit_Verification_Level Level_high) = 1 \<and>
     sleeping (fst (run_handler (activate_raid_protection p k) t1
                      (fst (run_handler (activate_raid_protection p k) t0 R0))))
       = sleeping R0"
proof -
  let ?N1 = "fst (run_handler (activate_protection_mode p) t0 N0)"
  let ?R1 = "fst (run_handler (activate_raid_protection p k) t0 R0)"
  have n: "run_handler (activate_protection_mode p) now N = (N, [])"
    using assms(1) by (simp add: run_handler_def activate_protection_mode_active suspend_def)
  have r: "run_handler (activate_raid_protection p k) now R = (R, [])"
    using assms(2) by (simp add: run_handler_def activate_raid_protection_active suspend_def)
  have n1: "protected_mode (cog ?N1)"
    using assms(3) by (simp add: activate_protection_mode_normal)
  have r1: "raid_protection_active (cog ?R1)"
    using assms(4) by (simp add: activate_raid_protection_normal)
  have n2: "run_handler (activate_protection_mode p) t1 ?N1 = (?N1, [])"
    using n1 by (simp add: run_handler_def [of _ t1] activate_protection_mode_active suspend_def)
  have r2: "run_handler (activate_raid_protection p k) t1 ?R1 = (?R1, [])"
    using r1 by (simp add: run_handler_def [of _ t1] activate_raid_protection_active suspend_def)
  have n3: "count_list (snd (run_handler (activate_protection_mode p) t0 N0)
                 @ snd (run_handler (activate_protection_mode p) t1 ?N1)) Send_Alert
       = (if log_channel p then 1 else 0)"
    unfolding n2 using assms(3) by (simp add: activate_protection_mode_normal log_nuke_action_def)
  have n4: "sleeping (fst (run_handler (activate_protection_mode p) t1 ?N1))
       = sleeping N0 @ [(t0 + timedelta_seconds 3600, Resume_activate_protection_mode)]"
    unfolding n2 using assms(3) by (simp add: activate_protection_mode_normal suspend_def)
  have r3: "count_list (snd (run_handler (activate_raid_protection p k) t0 R0)
                 @ snd (run_handler (activate_raid_protection p k) t1 ?R1)) Send_Alert
       = (if log_channel p then 1 else 0)"
    unfolding r2 using assms(4) by (simp add: activate_raid_protection_normal log_raid_action_def)
  have r4: "count_list (snd (run_handler (activate_raid_protection p k) t0 R0)
                 @ snd (run_handler (activate_raid_protection p k) t1 ?R1))
         (Edit_Verification_Level Level_high) = 1"
    unfolding r2 using assms(4) by (simp add: activate_raid_protection_normal log_raid_action_def)
  have r5: "sleeping (fst (run_handler (activate_raid_protection p k) t1 ?R1)) = sleeping R0"
    unfolding r2 using assms(4) by (simp add: activate_raid_protection_normal suspend_def)
  from n r n1 n2 n3 n4 r1 r2 r3 r4 r5 show ?thesis by blast
qed

theorem activation_idempotent_witness:
  "protected_mode (cog \<lparr>cog = nuke_init\<lparr>protected_mode := True\<rparr>,
                       sleeping = [(3600000000, Resume_activate_protection_mode)]\<rparr>) \<and>
   raid_protection_active (cog (fst manual_activation)) \<and>
   \<not> protected_mode (cog \<lparr>cog = nuke_init, sleeping = []\<rparr>) \<and>
   \<not> raid_protection_active (cog \<lparr>cog = raid_init, sleeping = []\<rparr>) \<and>
   snd (run_handler (activate_protection_mode permissive) 10000000
          \<lparr>cog = nuke_init\<lparr>protected_mode := True\<rparr>,
           sleeping = [(3600000000, Resume_activate_protection_mode)]\<rparr>) = [] \<and>
   sleeping (fst (run_handler (activate_protection_mode permissive) 10000000
          \<lparr>cog = nuke_init\<lparr>protected_mode := True\<rparr>,
           sleeping = [(3600000000, Resume_activate_protection_mode)]\<rparr>))
     = [(3600000000, Resume_activate_protection_mode)] \<and>
   run_handler (activate_raid_protection permissive (Resume_activate_raid_protection 42 True)) 10000000
       (fst manual_activation)
     = (fst manual_activation, []) \<and>
   snd (run_handler (activate_protection_mode permissive) 0 \<lparr>cog = nuke_init, sleeping = []\<rparr>)
     = [Log_Nuke None ''PROTECTION MODE ACTIVATED'', Send_Alert] \<and>
   sleeping (fst (run_handler (activate_protection_mode permissive) 5000000
       (fst (run_handler (activate_protection_mode permissive) 0 \<lparr>cog = nuke_init, sleeping = []\<rparr>))))
     = [(3600000000, Resume_activate_protection_mode)] \<and>
   snd (run_handler (activate_raid_protection permissive (Resume_activate_raid_protection 42 True)) 0
          \<lparr>cog = raid_init, sleeping = []\<rparr>)
     = [Edit_Verification_Level Level_high, Log_Raid ''RAID PROTECTION ACTIVATED'', Send_Alert]"
proof -
  have h1: "protected_mode (cog \<lparr>cog = nuke_init\<lparr>protected_mode := True\<rparr>,
                       sleeping = [(3600000000, Resume_activate_protection_mode)]\<rparr>)" by code_simp
  have h2: "raid_protection_active (cog (fst manual_activation))" by code_simp
  have h3: "\<not> protected_mode (cog \<lparr>cog = nuke_init, sleeping = []\<rparr>)" by code_simp
  have h4: "\<not> raid_protection_active (cog \<lparr>cog = raid_init, sleeping = []\<rparr>)" by code_simp
  note t = activation_idempotent [OF h1 h2 h3 h4, where p = permissive and now = 10000000
      and k = "Resume_activate_raid_protection 42 True" and ?t0.0 = 0 and ?t1.0 = 5000000]
  have ev:
    "snd (run_handler (activate_protection_mode permissive) 10000000
          \<lparr>cog = nuke_init\<lparr>protected_mode := True\<rparr>,
           sleeping = [(3600000000, Resume_activate_protection_mode)]\<rparr>) = [] \<and>
     sleeping (fst (run_handler (activate_protection_mode permissive) 10000000
          \<lparr>cog = nuke_init\<lparr>protected_mode := True\<rparr>,
           sleeping = [(3600000000, Resume_activate_protection_mode)]\<rparr>))
       = [(3600000000, Resume_activate_protection_mode)] \<and>
     snd (run_handler (activate_protection_mode permissive) 0 \<lparr>cog = nuke_init, sleeping = []\<rparr>)
       = [Log_Nuke None ''PROTECTION MODE ACTIVATED'', Send_Alert] \<and>
     sleeping (fst (run_handler (activate_protection_mode permissive) 5000000
       (fst (run_handler (activate_protection_mode permissive) 0 \<lparr>cog = nuke_init, sleeping = []\<rparr>))))
       = [(3600000000, Resume_activate_protection_mode)] \<and>
     snd (run_handler (activate_raid_protection permissive (Resume_activate_raid_protection 42 True)) 0
          \<lparr>cog = raid_init, sleeping = []\<rparr>)
       = [Edit_Verification_Level Level_high, Log_Raid ''RAID PROTECTION ACTIVATED'', Send_Alert]"
    by code_simp
  from t h1 h2 h3 h4 ev show ?thesis by blast
qed

section \<open>Anti-raid: detection and suspicious joins\<close>

text \<open>
  What the join handler does for a member whose \<^verbatim>\<open>created_at\<close> is naive, as a test stub
  would give it: the subtraction of line 50 succeeds and the handler goes on to the
  detection and the kick.
\<close>

lemma two_days_old_suspicious:
  assumes "created_at m = Naive c"
      and "timedelta_days 2 \<le> utcnow - c" and "utcnow - c < timedelta_days 3"
  shows "is_suspicious_account m utcnow = Inr (True, Some (New_account 2))"
proof -
  let ?age = "utcnow - c"
  from assms(2,3) have b: "172800000000 \<le> ?age" "?age < 259200000000"
    by (simp_all add: timedelta_days_def timedelta_seconds_def)
  then have "?age div 86400000000 = 2" by arith
  with b show ?thesis
    by (simp add: is_suspicious_account_def naive_minus_def assms(1) Let_def
        timedelta_days_def timedelta_seconds_def)
qed

lemma detect_raid_first_recent:
  assumes "join_tracking s \<noteq> []"
      and "\<not> now - hd (join_tracking s) > timedelta_seconds RAID_TIME_WINDOW"
  shows "detect_raid now s = (RAID_JOIN_LIMIT \<le> length (join_tracking s), s)"
proof -
  obtain t rest where q: "join_tracking s = t # rest" using assms(1) by (cases "join_tracking s") auto
  with assms(2) have "expire_joins now (join_tracking s) = join_tracking s" by simp
  then show ?thesis by (simp add: detect_raid_def Let_def)
qed

lemma on_member_join_while_active:
  assumes "raid_protection_active s" and "is_suspicious_account m utcnow = Inr (v, r)"
  shows "snd (on_member_join p m now utcnow now' s) =
           ((if log_channel p then [Log_Join (member_id m) v] else [])
            @ (if v then handle_suspicious p (member_id m) True (s\<lparr>raid_protection_active := True\<rparr>)
               else []),
            Done)"
    and "raid_protection_active (fst (on_member_join p m now utcnow now' s))"
  using assms(1)
  by (simp_all add: on_member_join_classified [OF assms(2)] Let_def activate_raid_protection_def
      handle_suspicious_def)

lemma on_member_join_tenth:
  assumes "\<not> raid_protection_active s" and "9 \<le> length (join_tracking s)"
      and "\<not> now' - hd (join_tracking s) > timedelta_seconds RAID_TIME_WINDOW"
      and "is_suspicious_account m utcnow = Inr (v, r)"
  shows "fst (detect_raid now' (s\<lparr>join_tracking := join_tracking s @ [now]\<rparr>))"
    and "raid_protection_active (fst (on_member_join p m now utcnow now' s))"
    and "join_tracking (fst (on_member_join p m now utcnow now' s)) = join_tracking s @ [now]"
    and "snd (on_member_join p m now utcnow now' s) =
       ((if log_channel p then [Log_Join (member_id m) v] else [])
        @ [Edit_Verification_Level Level_high] @ log_raid_action p ''RAID PROTECTION ACTIVATED''
        @ (if log_channel p then [Send_Alert] else []),
        Raised (NameError ''asyncio''))"
proof -
  from assms(2) have ne: "join_tracking s \<noteq> []" by auto
  have d: "detect_raid now' x = (True, x)"
    if "join_tracking x = join_tracking s @ [now]" for x
  proof -
    have "join_tracking x \<noteq> []" using that by simp
    moreover have "\<not> now' - hd (join_tracking x) > timedelta_seconds RAID_TIME_WINDOW"
      using assms(3) ne by (simp add: that)
    ultimately have "detect_raid now' x = (RAID_JOIN_LIMIT \<le> length (join_tracking x), x)"
      by (rule detect_raid_first_recent)
    then show ?thesis using assms(2) by (simp add: that RAID_JOIN_LIMIT_def)
  qed
  show "fst (detect_raid now' (s\<lparr>join_tracking := join_tracking s @ [now]\<rparr>))"
    by (simp add: d)
  have d1: "detect_raid now' (s\<lparr>join_tracking := join_tracking s @ [now]\<rparr>)
      = (True, s\<lparr>join_tracking := join_tracking s @ [now]\<rparr>)"
    by (rule d) simp
  have d2: "detect_raid now' (s\<lparr>join_tracking := join_tracking s @ [now],
                                 suspicious_users := insert (member_id m) (suspicious_users s)\<rparr>)
      = (True, s\<lparr>join_tracking := join_tracking s @ [now],
                 suspicious_users := insert (member_id m) (suspicious_users s)\<rparr>)"
    by (rule d) simp
  note j = on_member_join_classified [OF assms(4)]
  show "raid_protection_active (fst (on_member_join p m now utcnow now' s))"
    using assms(1) by (simp add: j Let_def d1 d2 activate_raid_protection_normal)
  show "join_tracking (fst (on_member_join p m now utcnow now' s)) = join_tracking s @ [now]"
    using assms(1) by (simp add: j Let_def d1 d2 activate_raid_protection_normal)
  show "snd (on_member_join p m now utcnow now' s) =
       ((if log_channel p then [Log_Join (member_id m) v] else [])
        @ [Edit_Verification_Level Level_high] @ log_raid_action p ''RAID PROTECTION ACTIVATED''
        @ (if log_channel p then [Send_Alert] else []),
        Raised (NameError ''asyncio''))"
    using assms(1) by (simp add: j Let_def d1 d2 activate_raid_protection_normal)
qed

lemma naive_two_days_old_kicked:
  assumes "raid_protection_active s" and "created_at m = Naive c"
      and "timedelta_days 2 \<le> utcnow - c" and "utcnow - c < timedelta_days 3"
  shows "snd (on_member_join p m now utcnow now' s) =
           ((if log_channel p then [Log_Join (member_id m) True] else [])
            @ (if can_kick p then [Kick (member_id m)] @ log_raid_action p ''SUSPICIOUS USER KICKED''
               else if can_timeout p
                 then [Kick (member_id m), Timeout (member_id m) (timedelta_hours 1)]
                      @ log_raid_action p ''SUSPICIOUS USER TIMED OUT''
               else [Kick (member_id m), Timeout (member_id m) (timedelta_hours 1)]
                    @ log_raid_action p ''SUSPICIOUS USER DETECTED (No Permission)''),
            Done)"
  by (simp add: on_member_join_while_active(1) [OF assms(1) two_days_old_suspicious [OF assms(2,3,4)]]
      handle_suspicious_def)

lemma naive_two_days_old_kicked_example:
  "snd (on_member_join permissive (two_days_old\<lparr>created_at := Naive (timedelta_days 98)\<rparr>)
          (timedelta_seconds 10) (timedelta_days 100) (timedelta_seconds 10) (cog (fst manual_activation)))
     = ([Log_Join 42 True, Kick 42, Log_Raid ''SUSPICIOUS USER KICKED''], Done)"
  by code_simp

text \<open>
  Claim C7 fails in the code. A member that the library hands to \<^verbatim>\<open>on_member_join\<close> has
  an aware \<^verbatim>\<open>created_at\<close>, so the subtraction of line 50 raises \<^verbatim>\<open>TypeError\<close>: the handler
  has appended the join to \<^verbatim>\<open>join_tracking\<close> and ends at line 155, before the join log, the
  call of \<^verbatim>\<open>detect_raid\<close>, the activation and the kick. Ten joins one second apart leave
  ten tracked timestamps, no call on the platform and the protection inactive. With the
  protection activated by the command, the join of the account created two days ago ends
  the same way: the account is not classified and no kick, timeout or log entry is
  attempted, whatever the platform permits.
\<close>

theorem join_handler_raises_type_error:
  "is_suspicious_account (m\<lparr>created_at := Aware c\<rparr>) utcnow = Inl TypeError \<and>
   on_member_join p (m\<lparr>created_at := Aware c\<rparr>) now utcnow now' s
     = (s\<lparr>join_tracking := join_tracking s @ [now]\<rparr>, [], Raised TypeError) \<and>
   length ten_joins = 10 \<and>
   snd (last ten_joins) - snd (hd ten_joins) \<le> timedelta_seconds RAID_TIME_WINDOW \<and>
   snd after_ten_joins = ([], replicate 10 (Raised TypeError)) \<and>
   length (join_tracking (cog (fst after_ten_joins))) = 10 \<and>
   \<not> raid_protection_active (cog (fst after_ten_joins)) \<and>
   raid_protection_active (cog (fst manual_activation)) \<and>
   created_at two_days_old = Aware (timedelta_days 100 - timedelta_days 2) \<and>
   snd (eleventh_join permissive) = ([], Raised TypeError) \<and>
   snd (eleventh_join (permissive\<lparr>can_kick := False\<rparr>)) = ([], Raised TypeError) \<and>
   raid_protection_active (fst (eleventh_join permissive))"
proof -
  have a: "is_suspicious_account (m\<lparr>created_at := Aware c\<rparr>) utcnow = Inl TypeError"
    by (rule is_suspicious_account_aware) simp
  note b = on_member_join_raises [OF a, of p now now' s]
  have c: "length ten_joins = 10 \<and>
      snd (last ten_joins) - snd (hd ten_joins) \<le> timedelta_seconds RAID_TIME_WINDOW \<and>
      snd after_ten_joins = ([], replicate 10 (Raised TypeError)) \<and>
      length (join_tracking (cog (fst after_ten_joins))) = 10 \<and>
      \<not> raid_protection_active (cog (fst after_ten_joins)) \<and>
      raid_protection_active (cog (fst manual_activation)) \<and>
      created_at two_days_old = Aware (timedelta_days 100 - timedelta_days 2) \<and>
      snd (eleventh_join permissive) = ([], Raised TypeError) \<and>
      snd (eleventh_join (permissive\<lparr>can_kick := False\<rparr>)) = ([], Raised TypeError) \<and>
      raid_protection_active (fst (eleventh_join permissive))"
    by code_simp
  from a b c show ?thesis by blast
qed

end
